theory Spec2Isabelle
  imports Main
begin

section \<open>Python strings\<close>

text \<open>
  A Python \<open>str\<close> is modelled as a \<open>string\<close>; a \<open>char\<close> stands for the code point
  of the same number, so the model covers the strings whose code points are below 256.
  On that range \<open>\d\<close> is \<open>0\<close>..\<open>9\<close>, and \<open>\s\<close>, \<open>str.strip()\<close> and
  \<open>str.isspace()\<close> agree on the twelve characters of \<open>is_space\<close>.
  Beyond that range Python's \<open>\d\<close> also matches the decimal digits of other scripts;
  strings holding such characters are outside the model, and every statement below
  is about the strings inside it.
\<close>

definition newline :: char where
  "newline = CHR 0x0A"

definition squote :: char where
  "squote = CHR 0x27"

definition dquote :: char where
  "dquote = CHR 0x22"

definition is_digit :: "char \<Rightarrow> bool" where
  "is_digit c \<longleftrightarrow> (48::nat) \<le> of_char c \<and> of_char c \<le> (57::nat)"

definition is_space :: "char \<Rightarrow> bool" where
  "is_space c \<longleftrightarrow> (let n = of_char c :: nat in
     (9 \<le> n \<and> n \<le> 13) \<or> (28 \<le> n \<and> n \<le> 32) \<or> n = 133 \<or> n = 160)"

text \<open>\<open>str.lower()\<close>: the upper-case letters below 256 are A..Z and U+00C0..U+00DE
  without the multiplication sign U+00D7; each maps to the code point 32 above.\<close>

definition lower_char :: "char \<Rightarrow> char" where
  "lower_char c = (let n = of_char c :: nat in
     if (65 \<le> n \<and> n \<le> 90) \<or> (192 \<le> n \<and> n \<le> 222 \<and> n \<noteq> 215)
     then char_of (n + 32) else c)"

definition lower :: "string \<Rightarrow> string" where
  "lower s = map lower_char s"

definition startswith :: "string \<Rightarrow> string \<Rightarrow> bool" where
  "startswith s k \<longleftrightarrow> take (length k) s = k"

text \<open>\<open>q in s\<close> on strings: \<open>q\<close> occurs in \<open>s\<close> as a contiguous block.\<close>

fun contains :: "string \<Rightarrow> string \<Rightarrow> bool" where
  "contains [] q = (q = [])"
| "contains (c # cs) q = (startswith (c # cs) q \<or> contains cs q)"

definition strip_chars :: "(char \<Rightarrow> bool) \<Rightarrow> string \<Rightarrow> string" where
  "strip_chars P s = rev (dropWhile P (rev (dropWhile P s)))"

definition strip :: "string \<Rightarrow> string" where
  "strip s = strip_chars is_space s"

text \<open>\<open>str(n)\<close> for a non-negative integer, and for any integer.\<close>

fun str_nat :: "nat \<Rightarrow> string" where
  "str_nat n = (if n < 10 then [char_of (48 + n)]
                else str_nat (n div 10) @ [char_of (48 + n mod 10)])"

declare str_nat.simps [simp del]

definition str_int :: "int \<Rightarrow> string" where
  "str_int i = (if i < 0 then CHR ''-'' # str_nat (nat (- i)) else str_nat (nat i))"

text \<open>The text of \<open>None\<close> or of a string inside an f-string.\<close>

definition fmt :: "string option \<Rightarrow> string" where
  "fmt v = (case v of None \<Rightarrow> ''None'' | Some s \<Rightarrow> s)"

text \<open>Truthiness of an optional string and of a list: \<open>None\<close>, \<open>''\<close> and \<open>[]\<close> are false.\<close>

definition truthy :: "string option \<Rightarrow> bool" where
  "truthy v \<longleftrightarrow> (case v of None \<Rightarrow> False | Some s \<Rightarrow> s \<noteq> [])"

definition println :: "string \<Rightarrow> string" where
  "println s = s @ [newline]"

section \<open>Exceptions\<close>

datatype error =
    ValueError string
  | KeyError
  | AttributeError
  | IndexError
  | Unmodelled

section \<open>The regular expressions of the program\<close>

text \<open>\<open>$\<close> without \<open>re.MULTILINE\<close> holds at the end of the string and just before a
  newline that is the last character.\<close>

definition at_end :: "string \<Rightarrow> bool" where
  "at_end r \<longleftrightarrow> r = [] \<or> r = [newline]"

text \<open>\<open>re.match(r'^\d{11}$', s)\<close>\<close>

definition match_phone :: "string \<Rightarrow> bool" where
  "match_phone s \<longleftrightarrow>
     length (take 11 s) = 11 \<and> list_all is_digit (take 11 s) \<and> at_end (drop 11 s)"

text \<open>\<open>re.match(r'^[a-zA-Z\- ]+$', s)\<close>: the greedy run of class characters, then \<open>$\<close>.
  A shorter run leaves at least two characters, where \<open>$\<close> fails, so backtracking adds
  no match.\<close>

definition name_char :: "char \<Rightarrow> bool" where
  "name_char c \<longleftrightarrow> (let n = of_char c :: nat in
     (97 \<le> n \<and> n \<le> 122) \<or> (65 \<le> n \<and> n \<le> 90) \<or> c = CHR ''-'' \<or> c = CHR '' '')"

definition match_name :: "string \<Rightarrow> bool" where
  "match_name s \<longleftrightarrow> takeWhile name_char s \<noteq> [] \<and> at_end (dropWhile name_char s)"

text \<open>\<open>re.match(r'^\d{4}/\d{2}/\d{2}$', s)\<close>\<close>

definition match_birthday :: "string \<Rightarrow> bool" where
  "match_birthday s \<longleftrightarrow>
     length (take 10 s) = 10
     \<and> list_all is_digit (take 4 s) \<and> take 1 (drop 4 s) = ''/''
     \<and> list_all is_digit (take 2 (drop 5 s)) \<and> take 1 (drop 7 s) = ''/''
     \<and> list_all is_digit (take 2 (drop 8 s)) \<and> at_end (drop 10 s)"

text \<open>\<open>re.findall(r'\".*?\"|\'.*?\'|\S+', s)\<close>. A quoted alternative at the start of
  the string: the quote, the fewest characters other than a newline, the same quote.
  The lazy body stops at the first closing quote, and fails at a newline or at the end
  of the string.\<close>

fun match_quoted :: "char \<Rightarrow> string \<Rightarrow> (string \<times> string) option" where
  "match_quoted q [] = None"
| "match_quoted q (c # cs) =
     (if c \<noteq> q then None
      else (case dropWhile (\<lambda>x. x \<noteq> q \<and> x \<noteq> newline) cs of
              [] \<Rightarrow> None
            | d # r \<Rightarrow> if d = q
                then Some (q # takeWhile (\<lambda>x. x \<noteq> q \<and> x \<noteq> newline) cs @ [q], r)
                else None))"

definition match_token :: "string \<Rightarrow> (string \<times> string) option" where
  "match_token s =
     (case match_quoted dquote s of Some m \<Rightarrow> Some m
      | None \<Rightarrow>
     (case match_quoted squote s of Some m \<Rightarrow> Some m
      | None \<Rightarrow>
        if takeWhile (\<lambda>c. \<not> is_space c) s = [] then None
        else Some (takeWhile (\<lambda>c. \<not> is_space c) s, dropWhile (\<lambda>c. \<not> is_space c) s)))"

text \<open>The scan: a match is taken where one starts, and the scan goes on after it;
  where none starts it moves one character on. No alternative matches the empty string.\<close>

function findall_args :: "string \<Rightarrow> string list" where
  "findall_args s =
     (if s = [] then []
      else (case match_token s of
              None \<Rightarrow> findall_args (tl s)
            | Some (tok, r) \<Rightarrow> tok # findall_args r))"
  by pat_completeness auto
termination
proof (relation "measure length")
  show "wf (measure length)" by simp
next
  fix s :: string
  assume "s \<noteq> []"
  then show "(tl s, s) \<in> measure length" by (cases s) simp_all
next
  fix s :: string and x2 tok r
  assume ne: "s \<noteq> []" and m: "match_token s = Some x2" and x2: "(tok, r) = x2"
  have q: "length r' < length t" if "match_quoted q t = Some (tok', r')" for q t tok' r'
  proof (cases t)
    case Nil
    with that show ?thesis by simp
  next
    case (Cons c cs)
    let ?P = "\<lambda>x. x \<noteq> q \<and> x \<noteq> newline"
    from that Cons obtain d where "dropWhile ?P cs = d # r'"
      by (auto split: if_splits list.splits)
    then have "length (d # r') \<le> length cs"
      by (metis length_dropWhile_le)
    with Cons show ?thesis by simp
  qed
  have w: "length (dropWhile (\<lambda>c. \<not> is_space c) s) < length s"
    if "takeWhile (\<lambda>c. \<not> is_space c) s \<noteq> []"
  proof -
    have "length (takeWhile (\<lambda>c. \<not> is_space c) s) + length (dropWhile (\<lambda>c. \<not> is_space c) s)
          = length s"
      by (metis length_append takeWhile_dropWhile_id)
    with that show ?thesis by (cases "takeWhile (\<lambda>c. \<not> is_space c) s") simp_all
  qed
  from m x2 have "length r < length s"
    unfolding match_token_def
    by (auto split: option.splits if_splits dest: q w)
  then show "(r, s) \<in> measure length" by simp
qed

declare findall_args.simps [simp del]

section \<open>Dates (the datetime module)\<close>

text \<open>
  The parts of the library's \<open>datetime\<close> the program uses, after the library's own Python
  source: a date is its year, month and day; constructing one checks the fields
  (\<open>_check_date_fields\<close>, with \<open>MINYEAR = 1\<close> and \<open>MAXYEAR = 9999\<close>); the ordinal of a
  date counts days from 0001-01-01 as day 1 (\<open>_ymd2ord\<close>). Python's \<open>//\<close> and \<open>%\<close> on
  integers are \<open>div\<close> and \<open>mod\<close> on \<open>int\<close>. A \<open>ValueError\<close> raised by the library carries the
  empty message here: the program never reads it.
\<close>

record date =
  year :: int
  month :: int
  day :: int

definition is_leap :: "int \<Rightarrow> bool" where
  "is_leap y \<longleftrightarrow> y mod 4 = 0 \<and> (y mod 100 \<noteq> 0 \<or> y mod 400 = 0)"

definition DAYS_IN_MONTH :: "int list" where
  "DAYS_IN_MONTH = [-1, 31, 28, 31, 30, 31, 30, 31, 31, 30, 31, 30, 31]"

definition DAYS_BEFORE_MONTH :: "int list" where
  "DAYS_BEFORE_MONTH = [-1, 0, 31, 59, 90, 120, 151, 181, 212, 243, 273, 304, 334]"

definition days_before_year :: "int \<Rightarrow> int" where
  "days_before_year y = (let y1 = y - 1 in y1 * 365 + y1 div 4 - y1 div 100 + y1 div 400)"

text \<open>Both table lookups are made with \<open>1 \<le> m \<le> 12\<close> only (the library asserts it).\<close>

definition days_in_month :: "int \<Rightarrow> int \<Rightarrow> int" where
  "days_in_month y m = (if m = 2 \<and> is_leap y then 29 else DAYS_IN_MONTH ! nat m)"

definition days_before_month :: "int \<Rightarrow> int \<Rightarrow> int" where
  "days_before_month y m = DAYS_BEFORE_MONTH ! nat m + (if m > 2 \<and> is_leap y then 1 else 0)"

definition ymd2ord :: "int \<Rightarrow> int \<Rightarrow> int \<Rightarrow> int" where
  "ymd2ord y m d = days_before_year y + days_before_month y m + d"

definition check_date_fields :: "int \<Rightarrow> int \<Rightarrow> int \<Rightarrow> error + date" where
  "check_date_fields y m d =
     (if \<not> (1 \<le> y \<and> y \<le> 9999) then Inl (ValueError [])
      else if \<not> (1 \<le> m \<and> m \<le> 12) then Inl (ValueError [])
      else if \<not> (1 \<le> d \<and> d \<le> days_in_month y m) then Inl (ValueError [])
      else Inr \<lparr>year = y, month = m, day = d\<rparr>)"

text \<open>\<open>d.replace(year=y)\<close> builds a new date from the changed fields, checking them.\<close>

definition replace_year :: "date \<Rightarrow> int \<Rightarrow> error + date" where
  "replace_year dt y = check_date_fields y (month dt) (day dt)"

definition toordinal :: "date \<Rightarrow> int" where
  "toordinal dt = ymd2ord (year dt) (month dt) (day dt)"

text \<open>\<open>a > b\<close> on dates compares the triples (year, month, day).\<close>

definition date_gt :: "date \<Rightarrow> date \<Rightarrow> bool" where
  "date_gt a b \<longleftrightarrow>
     year a > year b
     \<or> (year a = year b \<and> (month a > month b \<or> (month a = month b \<and> day a > day b)))"

subsection \<open>strptime with the format %Y/%m/%d\<close>

text \<open>
  \<open>datetime.strptime(s, '%Y/%m/%d')\<close> compiles the format to the regular expression
  \<^verbatim>\<open>(?P<Y>\d\d\d\d)/(?P<m>1[0-2]|0[1-9]|[1-9])/(?P<d>3[0-1]|[1-2]\d|0[1-9]|[1-9]| [1-9])\<close>,
  matches it at the start of \<open>s\<close>, raises \<open>ValueError\<close> when there is no match or when
  the match does not reach the end of \<open>s\<close>, converts the three groups with \<open>int\<close> and
  builds the date, which raises \<open>ValueError\<close> for a date that does not exist.
  Each piece of the expression is a function from the input to the list of its matches
  (matched text, rest of the input), in the order in which the matcher tries them; the
  match of the whole expression is the first of the list.
\<close>

definition in_range :: "char \<Rightarrow> char \<Rightarrow> char \<Rightarrow> bool" where
  "in_range lo hi c \<longleftrightarrow> (of_char lo :: nat) \<le> of_char c \<and> (of_char c :: nat) \<le> of_char hi"

definition one :: "(char \<Rightarrow> bool) \<Rightarrow> string \<Rightarrow> (string \<times> string) list" where
  "one P s = (case s of a # r \<Rightarrow> if P a then [([a], r)] else [] | _ \<Rightarrow> [])"

definition two :: "(char \<Rightarrow> bool) \<Rightarrow> (char \<Rightarrow> bool) \<Rightarrow> string \<Rightarrow> (string \<times> string) list" where
  "two P Q s = (case s of a # b # r \<Rightarrow> if P a \<and> Q b then [([a, b], r)] else [] | _ \<Rightarrow> [])"

definition lit :: "char \<Rightarrow> string \<Rightarrow> string list" where
  "lit c s = (case s of a # r \<Rightarrow> if a = c then [r] else [] | _ \<Rightarrow> [])"

definition re_Y :: "string \<Rightarrow> (string \<times> string) list" where
  "re_Y s = (case s of a # b # c # d # r \<Rightarrow>
               if is_digit a \<and> is_digit b \<and> is_digit c \<and> is_digit d then [([a, b, c, d], r)] else []
             | _ \<Rightarrow> [])"

definition re_m :: "string \<Rightarrow> (string \<times> string) list" where
  "re_m s = two (\<lambda>c. c = CHR ''1'') (in_range CHR ''0'' CHR ''2'') s
          @ two (\<lambda>c. c = CHR ''0'') (in_range CHR ''1'' CHR ''9'') s
          @ one (in_range CHR ''1'' CHR ''9'') s"

definition re_d :: "string \<Rightarrow> (string \<times> string) list" where
  "re_d s = two (\<lambda>c. c = CHR ''3'') (in_range CHR ''0'' CHR ''1'') s
          @ two (in_range CHR ''1'' CHR ''2'') is_digit s
          @ two (\<lambda>c. c = CHR ''0'') (in_range CHR ''1'' CHR ''9'') s
          @ one (in_range CHR ''1'' CHR ''9'') s
          @ two (\<lambda>c. c = CHR '' '') (in_range CHR ''1'' CHR ''9'') s"

definition re_Ymd :: "string \<Rightarrow> (string \<times> string \<times> string \<times> string) list" where
  "re_Ymd s = [(y, m, d, r5).
                 (y, r1) \<leftarrow> re_Y s, r2 \<leftarrow> lit CHR ''/'' r1,
                 (m, r3) \<leftarrow> re_m r2, r4 \<leftarrow> lit CHR ''/'' r3,
                 (d, r5) \<leftarrow> re_d r4]"

text \<open>\<open>int(t)\<close> for a text of digits with white space around it.\<close>

definition digit_val :: "char \<Rightarrow> int" where
  "digit_val c = int (of_char c) - 48"

definition py_int :: "string \<Rightarrow> int" where
  "py_int t = foldl (\<lambda>a c. 10 * a + digit_val c) 0 (strip t)"

definition strptime :: "string \<Rightarrow> error + date" where
  "strptime s =
     (case re_Ymd s of
        [] \<Rightarrow> Inl (ValueError [])
      | (y, m, d, r) # _ \<Rightarrow>
          if r \<noteq> [] then Inl (ValueError [])
          else check_date_fields (py_int y) (py_int m) (py_int d))"

text \<open>The test the program makes with \<open>try: strptime(...) except ValueError\<close>.\<close>

definition valid_birthday :: "string \<Rightarrow> bool" where
  "valid_birthday s \<longleftrightarrow> (case strptime s of Inr _ \<Rightarrow> True | Inl _ \<Rightarrow> False)"

section \<open>Fields and records\<close>

text \<open>
  \<open>Field.__init__\<close> stores its argument in \<open>_value\<close> directly; it does not go through the
  \<open>value\<close> property, so the setters of \<open>Birthday\<close> and \<open>Phone\<close> do not run when a field is
  constructed. A field object is modelled as its \<open>_value\<close>. The program builds a
  \<open>Birthday\<close> and a \<open>Phone\<close> from strings only, and a \<open>Name\<close> from a string or \<open>None\<close>.
\<close>

definition Field_init :: "'a \<Rightarrow> 'a" where
  "Field_init v = v"

definition birthday_message :: string where
  "birthday_message =
     ''Incorrect date format for '' @ [squote] @ ''birthday'' @ [squote] @ ''. Use ''
     @ [squote] @ ''YYYY/MM/DD'' @ [squote] @ '' format.''"

definition phone_message :: string where
  "phone_message = ''Phone numbers must be 11-digit numerical strings.''"

text \<open>The setters take the field's value and the new value, and give the exception
  raised (if any) with the field's value afterwards.\<close>

definition Birthday_set_value :: "string \<Rightarrow> string \<Rightarrow> error option \<times> string" where
  "Birthday_set_value v new_value =
     (case strptime new_value of
        Inr _ \<Rightarrow> (None, new_value)
      | Inl _ \<Rightarrow> (Some (ValueError birthday_message), v))"

definition Phone_set_value :: "string \<Rightarrow> string \<Rightarrow> error option \<times> string" where
  "Phone_set_value v new_value =
     (if \<not> match_phone new_value then (Some (ValueError phone_message), v)
      else (None, new_value))"

record Record =
  name :: "string option"
  birthday :: "string option"
  phones :: "string list"

definition add_phone :: "Record \<Rightarrow> string \<Rightarrow> Record" where
  "add_phone r phone = r\<lparr>phones := phones r @ [Field_init phone]\<rparr>"

definition Record_init :: "string option \<Rightarrow> string option \<Rightarrow> string list \<Rightarrow> Record" where
  "Record_init nm bd phs =
     foldl add_phone
       \<lparr>name = Field_init nm,
        birthday = (case bd of None \<Rightarrow> None
                    | Some b \<Rightarrow> if b \<noteq> [] then Some (Field_init b) else None),
        phones = []\<rparr>
       phs"

definition edit_birthday :: "Record \<Rightarrow> string \<Rightarrow> error option \<times> Record" where
  "edit_birthday r new_birthday =
     (case birthday r of
        None \<Rightarrow> (None, r\<lparr>birthday := Some (Field_init new_birthday)\<rparr>)
      | Some v \<Rightarrow> (case Birthday_set_value v new_birthday of
                     (e, v') \<Rightarrow> (e, r\<lparr>birthday := Some v'\<rparr>)))"

text \<open>\<open>edit_phone\<close>: the first phone equal to \<open>old_phone\<close> gets the new value through the
  setter, and the loop stops there.\<close>

fun edit_phone_loop :: "string list \<Rightarrow> string \<Rightarrow> string \<Rightarrow> error option \<times> string list" where
  "edit_phone_loop [] old_phone new_phone = (None, [])"
| "edit_phone_loop (p # ps) old_phone new_phone =
     (if p = old_phone
      then (case Phone_set_value p new_phone of (e, p') \<Rightarrow> (e, p' # ps))
      else (case edit_phone_loop ps old_phone new_phone of (e, ps') \<Rightarrow> (e, p # ps')))"

definition edit_phone :: "Record \<Rightarrow> string \<Rightarrow> string \<Rightarrow> error option \<times> Record" where
  "edit_phone r old_phone new_phone =
     (case edit_phone_loop (phones r) old_phone new_phone of
        (e, ps) \<Rightarrow> (e, r\<lparr>phones := ps\<rparr>))"

definition delete_phone :: "Record \<Rightarrow> string \<Rightarrow> Record" where
  "delete_phone r phone = r\<lparr>phones := filter (\<lambda>p. p \<noteq> phone) (phones r)\<rparr>"

section \<open>The address book\<close>

text \<open>
  The dictionary of the address book keeps insertion order, so it is a list of
  (key, record) pairs with distinct keys. A key is the name a record had when it was
  added: a string, or \<open>None\<close> (the add handler goes on after reporting a missing name).
  Assigning to a present key replaces the value where it stands; a new key goes last.
\<close>

type_synonym AddressBook = "(string option \<times> Record) list"

definition has_key :: "AddressBook \<Rightarrow> string option \<Rightarrow> bool" where
  "has_key ab k \<longleftrightarrow> k \<in> set (map fst ab)"

definition setitem :: "AddressBook \<Rightarrow> string option \<Rightarrow> Record \<Rightarrow> AddressBook" where
  "setitem ab k v =
     (if has_key ab k then map (\<lambda>(k', v'). if k' = k then (k', v) else (k', v')) ab
      else ab @ [(k, v)])"

definition getitem :: "AddressBook \<Rightarrow> string option \<Rightarrow> error + Record" where
  "getitem ab k = (case map_of ab k of None \<Rightarrow> Inl KeyError | Some r \<Rightarrow> Inr r)"

definition add_record :: "AddressBook \<Rightarrow> Record \<Rightarrow> AddressBook" where
  "add_record ab record = setitem ab (name record) record"

definition delete_record :: "AddressBook \<Rightarrow> string option \<Rightarrow> AddressBook" where
  "delete_record ab nm = (if has_key ab nm then filter (\<lambda>(k, v). k \<noteq> nm) ab else ab)"

text \<open>\<open>search_record\<close>: \<open>query.lower()\<close> and \<open>name.lower()\<close> raise \<open>AttributeError\<close> on
  \<open>None\<close>, inside the loop, so only when the book has an entry.\<close>

fun search_loop ::
  "AddressBook \<Rightarrow> string option \<Rightarrow> string option list \<Rightarrow> error + string option list" where
  "search_loop [] query found_records = Inr found_records"
| "search_loop ((nm, record) # rest) query found_records =
     (case query of
        None \<Rightarrow> Inl AttributeError
      | Some q \<Rightarrow>
     (case nm of
        None \<Rightarrow> Inl AttributeError
      | Some n \<Rightarrow>
          search_loop rest query
            ((if contains (lower n) (lower q) then found_records @ [nm] else found_records)
             @ map (\<lambda>phone. nm) (filter (\<lambda>phone. q = phone) (phones record)))))"

definition search_record :: "AddressBook \<Rightarrow> string option \<Rightarrow> error + string option list" where
  "search_record ab query = search_loop ab query []"

text \<open>What one pass of the loop body appends for an entry whose key is a string: the
  key once if the query occurs in it without regard to case, and once more for every
  phone equal to the query.\<close>

definition entry_hits :: "string \<Rightarrow> string option \<times> Record \<Rightarrow> string option list" where
  "entry_hits q e =
     (case e of (nm, record) \<Rightarrow>
        (if contains (lower (fmt nm)) (lower q) then [nm] else [])
        @ map (\<lambda>phone. nm) (filter (\<lambda>phone. q = phone) (phones record)))"

section \<open>The on-disk rows\<close>

text \<open>
  \<open>csv.DictWriter\<close> and \<open>csv.DictReader\<close> (delimiter \<open>;\<close>) carry the three fields of a
  row as text; the model takes a row to be the three strings the writer is given after
  its \<open>str()\<close> conversion, which are the strings the reader gives back. The phones
  field is a Python list, which \<open>str()\<close> writes as the \<open>repr\<close> of its elements between
  brackets; \<open>None\<close> is written as the empty string.
\<close>

definition hex_digit :: "nat \<Rightarrow> char" where
  "hex_digit n = (if n < 10 then char_of (48 + n) else char_of (87 + n))"

definition printable :: "char \<Rightarrow> bool" where
  "printable c \<longleftrightarrow> (let n = of_char c :: nat in
     (32 \<le> n \<and> n < 127) \<or> (161 \<le> n \<and> n \<noteq> 173))"

definition repr_char :: "char \<Rightarrow> char \<Rightarrow> string" where
  "repr_char quote c =
     (if c = quote \<or> c = CHR 0x5C then [CHR 0x5C, c]
      else if c = CHR 0x09 then [CHR 0x5C, CHR ''t'']
      else if c = CHR 0x0A then [CHR 0x5C, CHR ''n'']
      else if c = CHR 0x0D then [CHR 0x5C, CHR ''r'']
      else if \<not> printable c
        then [CHR 0x5C, CHR ''x'', hex_digit (of_char c div 16), hex_digit (of_char c mod 16)]
      else [c])"

text \<open>The characters \<open>repr\<close> writes as they are between single quotes.\<close>

definition plain :: "char \<Rightarrow> bool" where
  "plain c \<longleftrightarrow> printable c \<and> c \<noteq> squote \<and> c \<noteq> CHR 0x5C"

definition repr_str :: "string \<Rightarrow> string" where
  "repr_str s =
     (let quote = (if squote \<in> set s \<and> dquote \<notin> set s then dquote else squote)
      in quote # concat (map (repr_char quote) s) @ [quote])"

fun join :: "string \<Rightarrow> string list \<Rightarrow> string" where
  "join sep [] = []"
| "join sep [x] = x"
| "join sep (x # y # ys) = x @ sep @ join sep (y # ys)"

definition str_list :: "string list \<Rightarrow> string" where
  "str_list xs = ''['' @ join '', '' (map repr_str xs) @ '']''"

type_synonym row = "string \<times> string \<times> string"

definition to_row :: "Record \<Rightarrow> row" where
  "to_row record =
     (case name record of None \<Rightarrow> [] | Some n \<Rightarrow> n,
      case birthday record of None \<Rightarrow> [] | Some b \<Rightarrow> b,
      str_list (phones record))"

definition save_to_csv :: "AddressBook \<Rightarrow> row list" where
  "save_to_csv ab = map (\<lambda>(k, record). to_row record) ab"

text \<open>
  \<open>eval(phones_str)\<close> is modelled on the list displays of string literals without
  escapes: an opening bracket, literals in single or double quotes separated by a comma
  and one space, a closing bracket. Any other text is outside the model
  (\<open>Unmodelled\<close>): there \<open>eval\<close> may give any value, raise, or run code.
\<close>

fun eval_literal :: "string \<Rightarrow> (string \<times> string) option" where
  "eval_literal [] = None"
| "eval_literal (q # cs) =
     (if q \<noteq> squote \<and> q \<noteq> dquote then None
      else (case dropWhile (\<lambda>c. c \<noteq> q \<and> c \<noteq> CHR 0x5C \<and> printable c) cs of
              [] \<Rightarrow> None
            | d # r \<Rightarrow> if d = q
                then Some (takeWhile (\<lambda>c. c \<noteq> q \<and> c \<noteq> CHR 0x5C \<and> printable c) cs, r)
                else None))"

function eval_items :: "string \<Rightarrow> string list option" where
  "eval_items s =
     (case eval_literal s of
        None \<Rightarrow> None
      | Some (x, r) \<Rightarrow>
          if r = '']'' then Some [x]
          else if take 2 r = '', ''
            then (case eval_items (drop 2 r) of None \<Rightarrow> None | Some xs \<Rightarrow> Some (x # xs))
            else None)"
  by pat_completeness auto
termination
proof (relation "measure length")
  show "wf (measure length)" by simp
next
  fix s :: string and x2 x r
  assume m: "eval_literal s = Some x2" and x2: "(x, r) = x2"
  let ?P = "\<lambda>q c. c \<noteq> q \<and> c \<noteq> CHR 0x5C \<and> printable c"
  from m x2 obtain q cs d where s: "s = q # cs" and d: "dropWhile (?P q) cs = d # r"
    by (cases s) (auto split: if_splits list.splits)
  have "length (d # r) \<le> length cs"
    by (metis d length_dropWhile_le)
  with s have "length (drop 2 r) < length s" by simp
  then show "(drop 2 r, s) \<in> measure length" by simp
qed

declare eval_items.simps [simp del]

definition eval_phones :: "string \<Rightarrow> error + string list" where
  "eval_phones s =
     (if s = ''[]'' then Inr []
      else (case s of
              [] \<Rightarrow> Inl Unmodelled
            | c # cs \<Rightarrow> if c \<noteq> CHR ''['' then Inl Unmodelled
                else (case eval_items cs of None \<Rightarrow> Inl Unmodelled | Some xs \<Rightarrow> Inr xs)))"

text \<open>The body of the loading loop, for one row.\<close>

definition load_row :: "row \<Rightarrow> error + Record" where
  "load_row rw =
     (case rw of (nm, bd, phones_str) \<Rightarrow>
     (case eval_phones phones_str of
        Inl e \<Rightarrow> Inl e
      | Inr phones_list \<Rightarrow>
          (let record = Record_init (Some nm) None [];
               record = (if bd \<noteq> [] then record\<lparr>birthday := Some (Field_init bd)\<rparr>
                         else record)
           in Inr (foldl add_phone record phones_list))))"

fun load_from_csv :: "AddressBook \<Rightarrow> row list \<Rightarrow> error + AddressBook" where
  "load_from_csv ab [] = Inr ab"
| "load_from_csv ab (rw # rows) =
     (case load_row rw of
        Inl e \<Rightarrow> Inl e
      | Inr record \<Rightarrow> load_from_csv (add_record ab record) rows)"

section \<open>The bot\<close>

text \<open>The keys of the command table, in the order of the dictionary.\<close>

definition commands :: "string list" where
  "commands = [''help'', ''hello'', ''show all'', ''show phones'', ''show birthday'',
               ''days to birthday'', ''add'', ''change'', ''delete'', ''search name'']"

text \<open>\<open>arg.strip('"\'') if arg[0] in '\'"' else arg\<close>; \<open>arg[0]\<close> raises on an empty
  string.\<close>

definition is_quote :: "char \<Rightarrow> bool" where
  "is_quote c \<longleftrightarrow> c = squote \<or> c = dquote"

definition strip_quotes :: "string \<Rightarrow> error + string" where
  "strip_quotes arg =
     (case arg of
        [] \<Rightarrow> Inl IndexError
      | c # _ \<Rightarrow> Inr (if is_quote c then strip_chars is_quote arg else arg))"

fun strip_all :: "string list \<Rightarrow> error + string list" where
  "strip_all [] = Inr []"
| "strip_all (arg # args) =
     (case strip_quotes arg of
        Inl e \<Rightarrow> Inl e
      | Inr a \<Rightarrow> (case strip_all args of Inl e \<Rightarrow> Inl e | Inr as \<Rightarrow> Inr (a # as)))"

fun classify ::
  "string list \<Rightarrow> string option \<times> string option \<times> string list
     \<Rightarrow> string option \<times> string option \<times> string list" where
  "classify [] acc = acc"
| "classify (arg # args) (parsed_name, parsed_birthday, parsed_phones) =
     classify args
       (if match_name arg then (Some arg, parsed_birthday, parsed_phones)
        else if match_birthday arg then (parsed_name, Some arg, parsed_phones)
        else if match_phone arg then (parsed_name, parsed_birthday, parsed_phones @ [arg])
        else (parsed_name, parsed_birthday, parsed_phones))"

definition parse_input ::
  "string \<Rightarrow> string list
     \<Rightarrow> error + (string option \<times> string option \<times> string option \<times> string list option)" where
  "parse_input input_string cmds =
     (case find (\<lambda>key. startswith (lower input_string) (lower key)) cmds of
        None \<Rightarrow> Inr (None, None, None, None)
      | Some command \<Rightarrow>
          (case strip_all (findall_args (strip (drop (length command) input_string))) of
             Inl e \<Rightarrow> Inl e
           | Inr arguments \<Rightarrow>
               (case classify arguments (None, None, []) of
                  (parsed_name, parsed_birthday, parsed_phones) \<Rightarrow>
                    Inr (Some command, parsed_name, parsed_birthday, Some parsed_phones))))"

subsection \<open>Handlers\<close>

text \<open>
  A handler takes the address book and the three parsed arguments. What it prints is
  the text written to standard output. The handlers that change the book give the
  book afterwards; the handlers that can raise give the exception that leaves them.
\<close>

definition missing_name :: "string option \<Rightarrow> string" where
  "missing_name nm =
     (if \<not> truthy nm
      then println (''[-] Missing required '' @ [squote] @ ''name'' @ [squote] @ '' field.'')
      else [])"

definition handle_add ::
  "AddressBook \<Rightarrow> string option \<Rightarrow> string option \<Rightarrow> string list \<Rightarrow> AddressBook \<times> string" where
  "handle_add ab nm bd phs =
     (let out1 = missing_name nm;
          out2 = (case bd of
                    None \<Rightarrow> []
                  | Some b \<Rightarrow>
                      if b = [] then []
                      else (case strptime b of
                              Inr _ \<Rightarrow> []
                            | Inl _ \<Rightarrow> println (''[-] '' @ birthday_message)));
          out3 = concat (map (\<lambda>phone. if \<not> match_phone phone
                                       then println (''[-] '' @ phone_message) else []) phs);
          out4 = (if has_key ab nm then println ''[-] Name already exists.'' else []);
          record = Record_init nm bd phs
      in (add_record ab record,
          out1 @ out2 @ out3 @ out4
          @ println (''[+] Contact '' @ [squote] @ fmt nm @ [squote] @ '' added successfully!'')))"

text \<open>The change handler works on the record object stored in the book; the model
  writes the changed record back under the key it was found at. The third component
  is the value the handler returns (the caller prints it).\<close>

definition handle_change ::
  "AddressBook \<Rightarrow> string option \<Rightarrow> string option \<Rightarrow> string list
     \<Rightarrow> AddressBook \<times> string \<times> string option" where
  "handle_change ab nm bd phs =
     (let out1 = missing_name nm
      in case map_of ab nm of
           None \<Rightarrow> (ab, out1 @ println ''[-] Record not found.'', None)
         | Some existing_record \<Rightarrow>
             (case (case bd of
                      None \<Rightarrow> (existing_record, [])
                    | Some b \<Rightarrow>
                        if b = [] then (existing_record, [])
                        else (case strptime b of
                                Inr _ \<Rightarrow> (existing_record\<lparr>birthday := Some (Field_init b)\<rparr>, [])
                              | Inl _ \<Rightarrow> (existing_record, println (''[-] '' @ birthday_message))))
              of (record1, out2) \<Rightarrow>
                if phs \<noteq> [] \<and> \<not> list_all match_phone phs
                then (setitem ab nm record1, out1 @ out2, Some (''[-] '' @ phone_message))
                else
                  (setitem ab nm
                     (if phs \<noteq> [] then record1\<lparr>phones := map Field_init phs\<rparr> else record1),
                   out1 @ out2
                   @ println (''[+] Contact '' @ [squote] @ fmt nm @ [squote]
                              @ '' changed successfully!''),
                   None)))"

text \<open>The day count of the days-to-birthday handler, from the birthday's text and
  today's date.\<close>

definition days_remaining :: "string \<Rightarrow> date \<Rightarrow> error + int" where
  "days_remaining bd today =
     (case strptime bd of
        Inl e \<Rightarrow> Inl e
      | Inr parsed \<Rightarrow>
     (case replace_year parsed (year today) of
        Inl e \<Rightarrow> Inl e
      | Inr next_birthday \<Rightarrow>
          if date_gt today next_birthday
          then (case replace_year next_birthday (year today + 1) of
                  Inl e \<Rightarrow> Inl e
                | Inr next_birthday' \<Rightarrow> Inr (toordinal next_birthday' - toordinal today))
          else Inr (toordinal next_birthday - toordinal today)))"

definition handle_d2b :: "AddressBook \<Rightarrow> string option \<Rightarrow> date \<Rightarrow> string \<times> error option" where
  "handle_d2b ab nm today =
     (let out1 = (if \<not> truthy nm then println ''[-] Missing contact name.'' else [])
      in case map_of ab nm of
           Some record \<Rightarrow>
             (case birthday record of
                Some b \<Rightarrow>
                  (case days_remaining b today of
                     Inl e \<Rightarrow> (out1, Some e)
                   | Inr days \<Rightarrow>
                       (out1 @ println (''[+] '' @ fmt nm @ [squote] @ ''s birthday is in ''
                                        @ str_int days @ '' days.''),
                        None))
              | None \<Rightarrow>
                  (out1 @ println (''[-] '' @ fmt nm @ '' does not have a birthday specified.''),
                   None))
         | None \<Rightarrow>
             (out1 @ println (''[-] Contact '' @ [squote] @ fmt nm @ [squote]
                              @ '' not found in the address book.''),
              None))"

definition record_line :: "string option \<Rightarrow> Record \<Rightarrow> string" where
  "record_line nm record =
     fmt nm @ '', ''
     @ (case birthday record of Some b \<Rightarrow> b @ '', '' | None \<Rightarrow> [])
     @ ''Phones: ''
     @ println (join ''; ''
         (map (\<lambda>(i, phone). ''['' @ str_nat (i + 1) @ ''] '' @ phone)
              (zip [0 ..< length (phones record)] (phones record))))"

fun print_found :: "AddressBook \<Rightarrow> string option list \<Rightarrow> string \<Rightarrow> string \<times> error option" where
  "print_found ab [] out = (out, None)"
| "print_found ab (nm # rest) out =
     (case getitem ab nm of
        Inl e \<Rightarrow> (out, Some e)
      | Inr record \<Rightarrow> print_found ab rest (out @ record_line nm record))"

text \<open>The search handler is called with the three parsed arguments, so its argument
  tuple is never empty and the query is the parsed name.\<close>

definition handle_search_name :: "AddressBook \<Rightarrow> string option \<Rightarrow> string \<times> error option" where
  "handle_search_name ab query =
     (case search_record ab query of
        Inl e \<Rightarrow> ([], Some e)
      | Inr found_records \<Rightarrow>
          if found_records \<noteq> [] then print_found ab found_records []
          else (println ''[-] No matching records found.'', None))"

section \<open>Records and the dictionary: basic facts\<close>

lemma phones_foldl_add_phone: "phones (foldl add_phone r phs) = phones r @ phs"
  by (induction phs arbitrary: r) (simp_all add: add_phone_def Field_init_def)

lemma name_foldl_add_phone: "name (foldl add_phone r phs) = name r"
  by (induction phs arbitrary: r) (simp_all add: add_phone_def)

lemma birthday_foldl_add_phone: "birthday (foldl add_phone r phs) = birthday r"
  by (induction phs arbitrary: r) (simp_all add: add_phone_def)

lemma Record_init_eq:
  "Record_init nm bd phs =
     \<lparr>name = nm, birthday = (if truthy bd then bd else None), phones = phs\<rparr>"
  by (rule Record.equality)
     (simp_all add: Record_init_def phones_foldl_add_phone name_foldl_add_phone
        birthday_foldl_add_phone Field_init_def truthy_def split: option.splits)

lemma map_of_setitem: "map_of (setitem ab k v) k = Some v"
proof (cases "has_key ab k")
  case False
  then have "map_of ab k = None"
    by (simp add: has_key_def map_of_eq_None_iff)
  with False show ?thesis by (simp add: setitem_def map_add_def)
next
  case True
  have "k \<in> set (map fst xs) \<Longrightarrow>
        map_of (map (\<lambda>(k', v'). if k' = k then (k', v) else (k', v')) xs) k = Some v" for xs
    by (induction xs) auto
  with True show ?thesis by (simp add: setitem_def has_key_def)
qed

lemma map_of_setitem_other: "k' \<noteq> k \<Longrightarrow> map_of (setitem ab k v) k' = map_of ab k'"
proof -
  assume ne: "k' \<noteq> k"
  have "map_of (map (\<lambda>(k'', v'). if k'' = k then (k'', v) else (k'', v')) xs) k' = map_of xs k'"
    for xs
    using ne by (induction xs) auto
  with ne show ?thesis by (simp add: setitem_def map_add_def split: option.splits)
qed

lemma keys_setitem:
  "map fst (setitem ab k v) = (if has_key ab k then map fst ab else map fst ab @ [k])"
proof -
  have "map fst (map (\<lambda>(k', v'). if k' = k then (k', v) else (k', v')) xs) = map fst xs" for xs
    by (induction xs) auto
  then show ?thesis by (simp add: setitem_def)
qed

section \<open>The add handler and a name that is already a key\<close>

lemma handle_add_book:
  "fst (handle_add ab nm bd phs) = setitem ab nm (Record_init nm bd phs)"
  by (simp add: handle_add_def Let_def add_record_def Record_init_eq)

text \<open>Whatever the book holds, after the add handler the key holds the new record:
  the handler prints the conflict and goes on to \<open>add_record\<close>.\<close>

lemma handle_add_stores:
  "map_of (fst (handle_add ab nm bd phs)) nm = Some (Record_init nm bd phs)"
  by (simp add: handle_add_book map_of_setitem)

text \<open>
  Claim C1: when the name is already a key, the add handler reports the conflict and
  leaves the address book unchanged, the stored record not being overwritten.
  The handler prints the conflict but has no \<open>return\<close> after it: on the book holding
  Bob with the phone 11111111111, adding Bob with the phone 22222222222 prints
  "Name already exists." and then "added successfully", and the book holds the new
  record in place of the old one.
\<close>

theorem handle_add_existing_name_overwrites:
  "handle_add
     [(Some ''Bob'', \<lparr>name = Some ''Bob'', birthday = None, phones = [''11111111111'']\<rparr>)]
     (Some ''Bob'') None [''22222222222'']
   = ([(Some ''Bob'', \<lparr>name = Some ''Bob'', birthday = None, phones = [''22222222222'']\<rparr>)],
      println ''[-] Name already exists.''
      @ println (''[+] Contact '' @ [squote] @ ''Bob'' @ [squote] @ '' added successfully!''))"
  by code_simp

section \<open>Constructing a record validates nothing\<close>

text \<open>
  Claim C2: constructing a Record with an invalid birthday or an invalid phone fails
  and produces no record; \<open>add_phone\<close> validates before appending.
  The constructor of a field assigns \<open>_value\<close> without the setter, so nothing is
  validated: the record is built with the birthday not-a-date and the phone 123, both
  of which the validators reject, and \<open>add_phone\<close> appends 123.
\<close>

theorem Record_init_stores_invalid_fields:
  "Record_init (Some ''John'') (Some ''not-a-date'') [''123'']
     = \<lparr>name = Some ''John'', birthday = Some ''not-a-date'', phones = [''123'']\<rparr>
   \<and> strptime ''not-a-date'' = Inl (ValueError [])
   \<and> \<not> match_phone ''123''
   \<and> phones (add_phone \<lparr>name = Some ''John'', birthday = None, phones = []\<rparr> ''123'') = [''123'']"
  by code_simp

section \<open>Phone validation\<close>

lemma match_phone_iff:
  "match_phone s \<longleftrightarrow>
     (length s = 11 \<and> list_all is_digit s)
     \<or> (\<exists>t. s = t @ [newline] \<and> length t = 11 \<and> list_all is_digit t)"
proof
  assume m: "match_phone s"
  then have l: "11 \<le> length s" and d: "list_all is_digit (take 11 s)" and e: "at_end (drop 11 s)"
    by (auto simp: match_phone_def)
  from e consider "drop 11 s = []" | "drop 11 s = [newline]" by (auto simp: at_end_def)
  then show "(length s = 11 \<and> list_all is_digit s)
     \<or> (\<exists>t. s = t @ [newline] \<and> length t = 11 \<and> list_all is_digit t)"
  proof cases
    case 1
    with l d show ?thesis by simp
  next
    case 2
    then have "s = take 11 s @ [newline]" by (metis append_take_drop_id)
    with l d show ?thesis by (metis length_take min.absorb2)
  qed
next
  assume "(length s = 11 \<and> list_all is_digit s)
     \<or> (\<exists>t. s = t @ [newline] \<and> length t = 11 \<and> list_all is_digit t)"
  then show "match_phone s"
    by (auto simp: match_phone_def at_end_def)
qed

lemma Phone_set_value_rejects:
  "\<not> match_phone s \<Longrightarrow>
   Phone_set_value v s
     = (Some (ValueError ''Phone numbers must be 11-digit numerical strings.''), v)"
  by (simp add: Phone_set_value_def phone_message_def)

lemma Phone_set_value_accepts: "match_phone s \<Longrightarrow> Phone_set_value v s = (None, s)"
  by (simp add: Phone_set_value_def)

text \<open>
  Claim C5: phone validation succeeds exactly on the strings of 11 decimal digits and
  fails on every other string, trailing characters included.
  The pattern ends in \<open>$\<close>, which also holds before a final newline: the setter accepts
  the 12 characters made of 11 digits and a newline, and stores them.
\<close>

theorem Phone_set_value_accepts_trailing_newline:
  "Phone_set_value ''10000000000'' (''12345678901'' @ [newline])
     = (None, ''12345678901'' @ [newline])
   \<and> length (''12345678901'' @ [newline]) = 12"
  by code_simp

section \<open>The tokenizer\<close>

text \<open>
  Claim C9: the line "add John 1234567890 1" is parsed to the command add, the name
  John, no birthday and no phones; the tokens 1234567890 and 1 match none of the three
  patterns and are dropped without an error.
\<close>

theorem parse_input_add_John:
  "parse_input ''add John 1234567890 1'' commands
     = Inr (Some ''add'', Some ''John'', None, Some [])
   \<and> findall_args (strip (drop (length ''add'') ''add John 1234567890 1''))
     = [''John'', ''1234567890'', ''1'']
   \<and> \<not> match_name ''1234567890'' \<and> \<not> match_birthday ''1234567890''
   \<and> \<not> match_phone ''1234567890''
   \<and> \<not> match_name ''1'' \<and> \<not> match_birthday ''1'' \<and> \<not> match_phone ''1''"
  by code_simp

section \<open>Searching\<close>

lemma search_loop_keys:
  "search_loop ab query acc = Inr ns \<Longrightarrow> set ns \<subseteq> set acc \<union> set (map fst ab)"
proof (induction ab arbitrary: acc)
  case Nil
  then show ?case by simp
next
  case (Cons e ab)
  obtain nm rcd where e: "e = (nm, rcd)" by (cases e)
  from Cons.prems e obtain q n where q: "query = Some q" and n: "nm = Some n"
    by (auto split: option.splits)
  let ?acc = "(if contains (lower n) (lower q) then acc @ [nm] else acc)
             @ map (\<lambda>phone. nm) (filter (\<lambda>phone. q = phone) (phones rcd))"
  from Cons.prems have "search_loop ab query ?acc = Inr ns"
    unfolding e q n by (simp only: search_loop.simps option.case)
  then have "set ns \<subseteq> set ?acc \<union> set (map fst ab)" by (rule Cons.IH)
  moreover have "set ?acc \<subseteq> set acc \<union> {nm}" by auto
  ultimately show ?case unfolding e by auto
qed

lemma search_loop_error: "search_loop ab query acc = Inl e \<Longrightarrow> e = AttributeError"
proof (induction ab arbitrary: acc)
  case Nil
  then show ?case by simp
next
  case (Cons x ab)
  obtain nm rcd where x: "x = (nm, rcd)" by (cases x)
  show ?case
  proof (cases "\<exists>q n. query = Some q \<and> nm = Some n")
    case True
    then obtain q n where q: "query = Some q" and n: "nm = Some n" by blast
    let ?acc = "(if contains (lower n) (lower q) then acc @ [nm] else acc)
             @ map (\<lambda>phone. nm) (filter (\<lambda>phone. q = phone) (phones rcd))"
    from Cons.prems have "search_loop ab query ?acc = Inl e"
      unfolding x q n by (simp only: search_loop.simps option.case)
    then show ?thesis by (rule Cons.IH)
  next
    case False
    with Cons.prems x show ?thesis by (auto split: option.splits)
  qed
qed

lemma search_loop_total:
  "None \<notin> set (map fst ab) \<Longrightarrow>
   search_loop ab (Some q) acc = Inr (acc @ concat (map (entry_hits q) ab))"
proof (induction ab arbitrary: acc)
  case Nil
  then show ?case by simp
next
  case (Cons e ab)
  obtain nm rcd where e: "e = (nm, rcd)" by (cases e)
  with Cons.prems obtain n where n: "nm = Some n" by (cases nm) auto
  from Cons.prems have "None \<notin> set (map fst ab)" by simp
  note IH = Cons.IH [OF this]
  show ?case using e n by (simp add: IH entry_hits_def fmt_def)
qed

lemma print_found_ok:
  "set ns \<subseteq> set (map fst ab) \<Longrightarrow> snd (print_found ab ns out) = None"
proof (induction ns arbitrary: out)
  case Nil
  then show ?case by simp
next
  case (Cons nm ns)
  then have "nm \<in> fst ` set ab" by simp
  then obtain r where "map_of ab nm = Some r"
    by (metis map_of_eq_None_iff not_Some_eq)
  with Cons show ?case by (simp add: getitem_def)
qed

lemma print_found_error:
  "snd (print_found ab ns out) = Some e \<Longrightarrow> \<not> set ns \<subseteq> set (map fst ab)"
  using print_found_ok by fastforce

lemma in_entry_hits:
  "k \<in> set (entry_hits q (nm, r)) \<longleftrightarrow>
     k = nm \<and> (contains (lower (fmt nm)) (lower q) \<or> q \<in> set (phones r))"
  by (auto simp: entry_hits_def)

lemma in_concat_hits:
  "k \<in> set (concat (map (entry_hits q) ab)) \<longleftrightarrow>
     (\<exists>r. (k, r) \<in> set ab \<and> (contains (lower (fmt k)) (lower q) \<or> q \<in> set (phones r)))"
proof (induction ab)
  case Nil
  then show ?case by simp
next
  case (Cons e ab)
  obtain nm r' where e: "e = (nm, r')" by (cases e)
  show ?case unfolding e using Cons.IH in_entry_hits [of k q nm r'] by auto
qed

text \<open>
  Claim C10: every name the search returns is a key of the address book, so the search
  handler's lookup of each returned name never raises a missing-key error.
  The search returns whenever every key is a string, and then the handler raises
  nothing at all; with a key \<open>None\<close> (or the query \<open>None\<close>) the search itself raises
  \<open>AttributeError\<close>, which is not a missing-key error.
\<close>

theorem search_record_names_are_keys:
  "(\<forall>ns. search_record ab (Some q) = Inr ns \<longrightarrow> set ns \<subseteq> set (map fst ab))
   \<and> snd (handle_search_name ab query) \<noteq> Some KeyError
   \<and> (None \<notin> set (map fst ab) \<longrightarrow>
        (\<exists>ns. search_record ab (Some q) = Inr ns)
        \<and> snd (handle_search_name ab (Some q)) = None)"
proof (intro conjI allI impI)
  fix ns
  assume "search_record ab (Some q) = Inr ns"
  then show "set ns \<subseteq> set (map fst ab)"
    using search_loop_keys [of ab "Some q" "[]" ns] by (simp add: search_record_def)
next
  show "snd (handle_search_name ab query) \<noteq> Some KeyError"
  proof (cases "search_record ab query")
    case (Inl e)
    then have "e = AttributeError" by (simp add: search_record_def search_loop_error)
    with Inl show ?thesis by (simp add: handle_search_name_def)
  next
    case (Inr ns)
    then have "set ns \<subseteq> set (map fst ab)"
      using search_loop_keys [of ab query "[]" ns] by (simp add: search_record_def)
    then have "snd (print_found ab ns []) = None" by (rule print_found_ok)
    with Inr show ?thesis by (simp add: handle_search_name_def)
  qed
next
  assume k: "None \<notin> set (map fst ab)"
  then show "\<exists>ns. search_record ab (Some q) = Inr ns"
    by (simp add: search_record_def search_loop_total)
next
  assume k: "None \<notin> set (map fst ab)"
  then have s: "search_record ab (Some q) = Inr (concat (map (entry_hits q) ab))"
    by (simp add: search_record_def search_loop_total)
  then have "set (concat (map (entry_hits q) ab)) \<subseteq> set (map fst ab)"
    using search_loop_keys [of ab "Some q" "[]"] by (simp add: search_record_def)
  then have "snd (print_found ab (concat (map (entry_hits q) ab)) []) = None"
    by (rule print_found_ok)
  with s show "snd (handle_search_name ab (Some q)) = None"
    by (simp add: handle_search_name_def)
qed

text \<open>The theorem at the book holding Bob Smith and the query bob.\<close>

theorem search_record_names_are_keys_witness:
  "search_record
     [(Some ''Bob Smith'', \<lparr>name = Some ''Bob Smith'', birthday = None, phones = [''55512340001'']\<rparr>)]
     (Some ''bob'') = Inr [Some ''Bob Smith'']
   \<and> set [Some ''Bob Smith'']
     \<subseteq> set (map fst
         [(Some ''Bob Smith'', \<lparr>name = Some ''Bob Smith'', birthday = None, phones = [''55512340001'']\<rparr>)])
   \<and> None \<notin> set (map fst
         [(Some ''Bob Smith'', \<lparr>name = Some ''Bob Smith'', birthday = None, phones = [''55512340001'']\<rparr>)])
   \<and> snd (handle_search_name
         [(Some ''Bob Smith'', \<lparr>name = Some ''Bob Smith'', birthday = None, phones = [''55512340001'']\<rparr>)]
         (Some ''bob'')) = None"
proof -
  let ?ab = "[(Some ''Bob Smith'',
               \<lparr>name = Some ''Bob Smith'', birthday = None, phones = [''55512340001'']\<rparr>)]"
  have e: "search_record ?ab (Some ''bob'') = Inr [Some ''Bob Smith'']" by code_simp
  have k: "None \<notin> set (map fst ?ab)" by simp
  from search_record_names_are_keys [of ?ab "''bob''" "Some ''bob''"] e k
  show ?thesis by simp
qed

text \<open>
  Claim C6, as stated: searching for 555 in a book holding Bob Smith with the phone
  55512340001 returns a list containing Bob Smith. A phone matches only when it is
  equal to the query, and 555 does not occur in the name: the search returns the empty
  list.
\<close>

theorem search_555_misses_Bob_Smith:
  "search_record
     [(Some ''Bob Smith'', \<lparr>name = Some ''Bob Smith'', birthday = None, phones = [''55512340001'']\<rparr>)]
     (Some ''555'') = Inr []"
  by code_simp

text \<open>
  Claim C6, amended: in a book whose keys are strings and which holds Bob Smith with
  the phone 55512340001 among its phones, the search returns, for every query, the
  hits of the entries in insertion order; the result contains Bob Smith for the query
  55512340001 (a phone equal to the query) and for the query bob (a part of the name,
  without regard to case); for the query 555 it contains Bob Smith only if 555 itself
  is a stored phone of a Bob Smith entry.
\<close>

theorem search_Bob_Smith:
  assumes "(Some ''Bob Smith'', r) \<in> set ab" and "None \<notin> set (map fst ab)"
    and "''55512340001'' \<in> set (phones r)"
  shows "search_record ab (Some q) = Inr (concat (map (entry_hits q) ab))
    \<and> Some ''Bob Smith'' \<in> set (concat (map (entry_hits ''55512340001'') ab))
    \<and> Some ''Bob Smith'' \<in> set (concat (map (entry_hits ''bob'') ab))
    \<and> (Some ''Bob Smith'' \<in> set (concat (map (entry_hits ''555'') ab))
        \<longleftrightarrow> (\<exists>r'. (Some ''Bob Smith'', r') \<in> set ab \<and> ''555'' \<in> set (phones r')))"
proof (intro conjI)
  show "search_record ab (Some q) = Inr (concat (map (entry_hits q) ab))"
    using assms(2) by (simp add: search_record_def search_loop_total)
  show "Some ''Bob Smith'' \<in> set (concat (map (entry_hits ''55512340001'') ab))"
    unfolding in_concat_hits using assms(1,3) by blast
  have c: "contains (lower (fmt (Some ''Bob Smith''))) (lower ''bob'')" by code_simp
  show "Some ''Bob Smith'' \<in> set (concat (map (entry_hits ''bob'') ab))"
    unfolding in_concat_hits using assms(1) c by blast
  have n: "\<not> contains (lower (fmt (Some ''Bob Smith''))) (lower ''555'')" by code_simp
  show "Some ''Bob Smith'' \<in> set (concat (map (entry_hits ''555'') ab))
        \<longleftrightarrow> (\<exists>r'. (Some ''Bob Smith'', r') \<in> set ab \<and> ''555'' \<in> set (phones r'))"
    unfolding in_concat_hits using n by blast
qed

text \<open>The theorem at the book holding only that record.\<close>

theorem search_Bob_Smith_witness:
  "(Some ''Bob Smith'', \<lparr>name = Some ''Bob Smith'', birthday = None, phones = [''55512340001'']\<rparr>)
     \<in> set [(Some ''Bob Smith'',
              \<lparr>name = Some ''Bob Smith'', birthday = None, phones = [''55512340001'']\<rparr>)]
   \<and> search_record
       [(Some ''Bob Smith'', \<lparr>name = Some ''Bob Smith'', birthday = None, phones = [''55512340001'']\<rparr>)]
       (Some ''55512340001'')
     = Inr (concat (map (entry_hits ''55512340001'')
         [(Some ''Bob Smith'',
           \<lparr>name = Some ''Bob Smith'', birthday = None, phones = [''55512340001'']\<rparr>)]))
   \<and> Some ''Bob Smith'' \<in> set (concat (map (entry_hits ''55512340001'')
         [(Some ''Bob Smith'',
           \<lparr>name = Some ''Bob Smith'', birthday = None, phones = [''55512340001'']\<rparr>)]))"
proof -
  let ?r = "\<lparr>name = Some ''Bob Smith'', birthday = None, phones = [''55512340001'']\<rparr>"
  have a: "(Some ''Bob Smith'', ?r) \<in> set [(Some ''Bob Smith'', ?r)]" by simp
  have b: "None \<notin> set (map fst [(Some ''Bob Smith'', ?r)])" by simp
  have c: "''55512340001'' \<in> set (phones ?r)" by simp
  from search_Bob_Smith [OF a b c, of "''55512340001''"] a show ?thesis by blast
qed

section \<open>Days until the birthday\<close>

subsection \<open>Ordinals of dates\<close>

lemma month_cases:
  "1 \<le> m \<Longrightarrow> m \<le> 12 \<Longrightarrow>
   m = 1 \<or> m = 2 \<or> m = 3 \<or> m = 4 \<or> m = 5 \<or> m = 6 \<or> m = 7 \<or> m = 8 \<or> m = 9
   \<or> m = 10 \<or> m = 11 \<or> m = (12::int)"
  by arith

lemma div_step:
  fixes y k :: int
  assumes "0 < k"
  shows "y div k = (y - 1) div k + (if y mod k = 0 then 1 else 0)"
proof (cases "y mod k = 0")
  case True
  then obtain q where q: "y = k * q" by auto
  have "(k * q - 1) div k = q - 1"
  proof -
    have "k * q - 1 = (k - 1) + k * (q - 1)" by (simp add: algebra_simps)
    then have "(k * q - 1) div k = ((k - 1) + k * (q - 1)) div k" by (simp only:)
    also have "\<dots> = (k - 1) div k + (q - 1)"
      using assms by (simp only: div_mult_self2)
    also have "(k - 1) div k = 0" using assms by simp
    finally show ?thesis by simp
  qed
  with q assms True show ?thesis by simp
next
  case False
  have m: "0 \<le> y mod k" "y mod k < k" using assms by simp_all
  with False have "1 \<le> y mod k" by simp
  have "y - 1 = (y mod k - 1) + k * (y div k)" by (simp add: algebra_simps)
  then have "(y - 1) div k = ((y mod k - 1) + k * (y div k)) div k" by (simp only:)
  also have "\<dots> = (y mod k - 1) div k + y div k"
    using assms by (simp only: div_mult_self2)
  also have "(y mod k - 1) div k = 0"
    using m \<open>1 \<le> y mod k\<close> by (simp add: div_pos_pos_trivial)
  finally show ?thesis using False by simp
qed

lemma leap_count:
  fixes p4 p100 p400 :: bool
  assumes d: "p100 \<Longrightarrow> p4" and e: "p400 \<Longrightarrow> p100"
  shows "(if p4 \<and> (\<not> p100 \<or> p400) then 1 else 0)
     = (if p4 then 1 else 0) - (if p100 then 1 else 0) + (if p400 then (1::int) else 0)"
proof (cases p400)
  case True
  then have "p100" by (rule e)
  then have "p4" by (rule d)
  with True \<open>p100\<close> show ?thesis by simp
next
  case False
  show ?thesis
  proof (cases p100)
    case True
    then have "p4" by (rule d)
    with True False show ?thesis by simp
  next
    case n: False
    with False show ?thesis by simp
  qed
qed

lemma days_before_year_Suc:
  "days_before_year (y + 1) = days_before_year y + 365 + (if is_leap y then 1 else 0)"
proof -
  define A B C where "A = (y - 1) div 4" and "B = (y - 1) div 100" and "C = (y - 1) div 400"
  define p4 p100 p400 where "p4 \<longleftrightarrow> y mod 4 = 0" and "p100 \<longleftrightarrow> y mod 100 = 0"
    and "p400 \<longleftrightarrow> y mod 400 = 0"
  define ia ib ic :: int where "ia = (if p4 then 1 else 0)"
    and "ib = (if p100 then 1 else 0)" and "ic = (if p400 then 1 else 0)"
  define A' B' C' where "A' = y div 4" and "B' = y div 100" and "C' = y div 400"
  have a: "A' = A + ia" unfolding A'_def A_def ia_def p4_def by (rule div_step) simp
  have b: "B' = B + ib" unfolding B'_def B_def ib_def p100_def by (rule div_step) simp
  have c: "C' = C + ic" unfolding C'_def C_def ic_def p400_def by (rule div_step) simp
  have d: "p4" if "p100"
  proof -
    have "y mod 100 mod 4 = y mod 4" by (rule mod_mod_cancel) simp
    with that show ?thesis unfolding p4_def p100_def by (simp only: mod_0)
  qed
  have e: "p100" if "p400"
  proof -
    have "y mod 400 mod 100 = y mod 100" by (rule mod_mod_cancel) simp
    with that show ?thesis unfolding p100_def p400_def by (simp only: mod_0)
  qed
  have f: "is_leap y \<longleftrightarrow> p4 \<and> (\<not> p100 \<or> p400)"
    by (simp only: is_leap_def p4_def p100_def p400_def)
  have l: "(if is_leap y then 1 else 0) = ia - ib + ic"
    unfolding f ia_def ib_def ic_def using d e by (rule leap_count)
  have n: "days_before_year (y + 1) = y * 365 + A' - B' + C'"
    by (simp add: days_before_year_def A'_def B'_def C'_def)
  have p: "days_before_year y = (y - 1) * 365 + A - B + C"
    by (simp add: days_before_year_def Let_def A_def B_def C_def)
  show ?thesis unfolding n p l a b c by (simp add: algebra_simps)
qed

lemma days_in_month_bounds:
  "1 \<le> m \<Longrightarrow> m \<le> 12 \<Longrightarrow> 28 \<le> days_in_month y m \<and> days_in_month y m \<le> 31"
  using month_cases [of m] by (auto simp: days_in_month_def DAYS_IN_MONTH_def)

lemma days_before_month_Suc:
  assumes "1 \<le> m" "m < 12"
  shows "days_before_month y (m + 1) = days_before_month y m + days_in_month y m"
proof -
  have "1 \<le> m" "m \<le> 12" using assms by auto
  from month_cases [OF this] assms(2) show ?thesis
    by (elim disjE;
        simp add: days_in_month_def days_before_month_def DAYS_IN_MONTH_def DAYS_BEFORE_MONTH_def)
qed

lemma days_before_month_mono:
  assumes "1 \<le> m1" "m1 < m2" "m2 \<le> 12"
  shows "days_before_month y m1 + days_in_month y m1 \<le> days_before_month y m2"
proof -
  have "m1 + 1 \<le> m2" using assms(2) by simp
  then have "m2 \<le> 12 \<longrightarrow> days_before_month y m1 + days_in_month y m1 \<le> days_before_month y m2"
  proof (induction m2 rule: int_ge_induct)
    case base
    show ?case using assms(1) by (simp add: days_before_month_Suc)
  next
    case (step i)
    show ?case
    proof
      assume i: "i + 1 \<le> 12"
      with step have le: "days_before_month y m1 + days_in_month y m1 \<le> days_before_month y i"
        by simp
      have "1 \<le> i" "i < 12" using step.hyps assms(1) i by auto
      then have "days_before_month y (i + 1) = days_before_month y i + days_in_month y i"
        by (rule days_before_month_Suc)
      moreover have "28 \<le> days_in_month y i"
        using days_in_month_bounds [of i y] \<open>1 \<le> i\<close> \<open>i < 12\<close> by simp
      ultimately show "days_before_month y m1 + days_in_month y m1 \<le> days_before_month y (i + 1)"
        using le by simp
    qed
  qed
  with assms(3) show ?thesis by simp
qed

lemma day_of_year_mono:
  assumes "1 \<le> m1" "m1 < m2" "m2 \<le> 12" "d1 \<le> days_in_month y m1" "1 \<le> d2"
  shows "days_before_month y m1 + d1 < days_before_month y m2 + d2"
  using days_before_month_mono [OF assms(1,2,3), of y] assms(4,5) by simp

lemma day_of_year_bounds:
  assumes "1 \<le> m" "m \<le> 12" "1 \<le> d" "d \<le> days_in_month y m"
  shows "1 \<le> days_before_month y m + d"
    and "days_before_month y m + d \<le> 365 + (if is_leap y then 1 else 0)"
proof -
  have z: "days_before_month y 1 = 0"
    by (simp add: days_before_month_def DAYS_BEFORE_MONTH_def)
  have "0 \<le> days_before_month y m"
  proof (cases "m = 1")
    case True
    with z show ?thesis by simp
  next
    case False
    with assms have "1 < m" by simp
    from days_before_month_mono [OF _ this assms(2), of y] days_in_month_bounds [of 1 y] z
    show ?thesis by simp
  qed
  with assms(3) show "1 \<le> days_before_month y m + d" by simp
  have t: "days_before_month y 12 + days_in_month y 12 = 365 + (if is_leap y then 1 else 0)"
    by (simp add: days_before_month_def DAYS_BEFORE_MONTH_def days_in_month_def DAYS_IN_MONTH_def)
  have "days_before_month y m + days_in_month y m \<le> 365 + (if is_leap y then 1 else 0)"
  proof (cases "m = 12")
    case True
    with t show ?thesis by simp
  next
    case False
    with assms have "m < 12" by simp
    from days_before_month_mono [OF assms(1) this, of y] days_in_month_bounds [of 12 y] t
    show ?thesis by (simp split: if_splits)
  qed
  with assms(4) show "days_before_month y m + d \<le> 365 + (if is_leap y then 1 else 0)"
    by (simp split: if_splits)
qed

lemma days_in_month_other_year:
  assumes "1 \<le> m" "m \<le> 12" "d \<le> days_in_month y m" "\<not> (m = 2 \<and> d = 29)"
  shows "d \<le> days_in_month y' m"
proof (cases "m = 2")
  case False
  then have "days_in_month y m = days_in_month y' m" by (simp add: days_in_month_def)
  with assms(3) show ?thesis by simp
next
  case True
  have "days_in_month y 2 \<le> 29" "28 \<le> days_in_month y' 2"
    by (simp_all add: days_in_month_def DAYS_IN_MONTH_def)
  with True assms(3,4) show ?thesis by simp
qed

lemma days_before_month_shift:
  "days_before_month (y + 1) m + (if is_leap y then 1 else 0) \<le> days_before_month y m + 1"
  by (simp add: days_before_month_def)

lemma strptime_valid:
  "strptime s = Inr b \<Longrightarrow> check_date_fields (year b) (month b) (day b) = Inr b"
  by (auto simp: strptime_def check_date_fields_def split: list.splits if_splits)

lemma check_date_fields_Inr:
  "check_date_fields y m d = Inr dt \<longleftrightarrow>
     dt = \<lparr>year = y, month = m, day = d\<rparr>
     \<and> 1 \<le> y \<and> y \<le> 9999 \<and> 1 \<le> m \<and> m \<le> 12 \<and> 1 \<le> d \<and> d \<le> days_in_month y m"
  by (auto simp: check_date_fields_def)

subsection \<open>The day count\<close>

text \<open>
  Claim C7, as stated: for the birthday 2020/03/10 the count is 365 when today is
  2025/03/11. The next occurrence is 2026/03/10 and no 29 February lies between the two
  dates, so the count is 364.
\<close>

theorem days_remaining_2025_03_11_is_364:
  "days_remaining ''2020/03/10'' \<lparr>year = 2025, month = 3, day = 11\<rparr> \<noteq> Inr 365"
proof -
  have "days_remaining ''2020/03/10'' \<lparr>year = 2025, month = 3, day = 11\<rparr> = Inr 364"
    by code_simp
  then show ?thesis by simp
qed

text \<open>A birthday on 29 February makes \<open>replace(year=...)\<close> raise in a year that is not
  a leap year; the handler does not catch it.\<close>

lemma days_remaining_Feb_29:
  "days_remaining ''2020/02/29'' \<lparr>year = 2025, month = 3, day = 11\<rparr> = Inl (ValueError [])"
  by code_simp

text \<open>
  Claim C7, amended: for every birthday text that \<open>strptime\<close> accepts and that is not a
  29 February, and every valid date today before the year 9999, the handler's day count
  is the number of days from today to the next occurrence of the birthday's month and
  day on or after today (this year's, or next year's when this year's has passed); it
  lies between 0 and 365. For the birthday 2020/03/10 it is 0 on 2025/03/10 and 364 on
  2025/03/11.
\<close>

theorem days_remaining_next_occurrence:
  assumes "strptime bd = Inr b" and "\<not> (month b = 2 \<and> day b = 29)"
    and "check_date_fields (year today) (month today) (day today) = Inr today"
    and "year today < 9999"
  shows "\<exists>nb. days_remaining bd today = Inr (toordinal nb - toordinal today)
     \<and> month nb = month b \<and> day nb = day b
     \<and> check_date_fields (year nb) (month nb) (day nb) = Inr nb
     \<and> \<not> date_gt today nb
     \<and> (year nb = year today
         \<or> (year nb = year today + 1 \<and> date_gt today (nb\<lparr>year := year today\<rparr>)))
     \<and> 0 \<le> toordinal nb - toordinal today \<and> toordinal nb - toordinal today \<le> 365"
proof -
  let ?y = "year today" and ?m = "month b" and ?d = "day b"
  from strptime_valid [OF assms(1)]
  have b: "1 \<le> ?m" "?m \<le> 12" "1 \<le> ?d" "?d \<le> days_in_month (year b) ?m"
    by (auto simp: check_date_fields_Inr)
  from assms(3)
  have t: "1 \<le> ?y" "1 \<le> month today" "month today \<le> 12" "1 \<le> day today"
    "day today \<le> days_in_month ?y (month today)"
    by (auto simp: check_date_fields_Inr)
  have d0: "?d \<le> days_in_month ?y ?m" and d1: "?d \<le> days_in_month (?y + 1) ?m"
    using days_in_month_other_year [OF b(1,2,4) assms(2)] by auto
  let ?n0 = "\<lparr>year = ?y, month = ?m, day = ?d\<rparr>"
  let ?n1 = "\<lparr>year = ?y + 1, month = ?m, day = ?d\<rparr>"
  have r0: "replace_year b ?y = Inr ?n0"
    using b t d0 assms(4) by (simp add: replace_year_def check_date_fields_def)
  have r1: "replace_year ?n0 (?y + 1) = Inr ?n1"
    using b t d1 assms(4) by (simp add: replace_year_def check_date_fields_def)
  have v0: "check_date_fields (year ?n0) (month ?n0) (day ?n0) = Inr ?n0"
    using b t d0 assms(4) by (simp add: check_date_fields_def)
  have v1: "check_date_fields (year ?n1) (month ?n1) (day ?n1) = Inr ?n1"
    using b t d1 assms(4) by (simp add: check_date_fields_def)
  show ?thesis
  proof (cases "date_gt today ?n0")
    case False
    then have dr: "days_remaining bd today = Inr (toordinal ?n0 - toordinal today)"
      using assms(1) r0 by (simp add: days_remaining_def)
    from False have le: "month today < ?m \<or> (month today = ?m \<and> day today \<le> ?d)"
      by (auto simp: date_gt_def)
    have lo: "toordinal today \<le> toordinal ?n0"
      using le day_of_year_mono [of "month today" ?m "day today" ?y ?d] t b
      by (auto simp: toordinal_def ymd2ord_def)
    have hi: "toordinal ?n0 - toordinal today \<le> 365"
      using day_of_year_bounds [OF b(1,2,3) d0] day_of_year_bounds [OF t(2,3,4,5)]
      by (auto simp: toordinal_def ymd2ord_def split: if_splits)
    show ?thesis
      by (rule exI [of _ ?n0]) (use dr v0 False lo hi in simp)
  next
    case True
    then have dr: "days_remaining bd today = Inr (toordinal ?n1 - toordinal today)"
      using assms(1) r0 r1 by (simp add: days_remaining_def)
    from True have gt: "?m < month today \<or> (?m = month today \<and> ?d < day today)"
      by (auto simp: date_gt_def)
    have lt: "days_before_month ?y ?m + ?d < days_before_month ?y (month today) + day today"
      using gt day_of_year_mono [of ?m "month today" ?d ?y "day today"] t b d0 by auto
    have ng: "\<not> date_gt today ?n1" by (simp add: date_gt_def)
    have lo: "toordinal today \<le> toordinal ?n1"
      using day_of_year_bounds [OF b(1,2,3) d1] day_of_year_bounds [OF t(2,3,4,5)]
      by (auto simp: toordinal_def ymd2ord_def days_before_year_Suc split: if_splits)
    have hi: "toordinal ?n1 - toordinal today \<le> 365"
      using lt days_before_month_shift [of ?y ?m]
      by (auto simp: toordinal_def ymd2ord_def days_before_year_Suc split: if_splits)
    show ?thesis
      by (rule exI [of _ ?n1]) (use dr v1 ng True lo hi in simp)
  qed
qed

text \<open>The theorem at the birthday 2020/03/10 and today 2025/03/11, with the two
  values of the claim.\<close>

theorem days_remaining_next_occurrence_witness:
  "strptime ''2020/03/10'' = Inr \<lparr>year = 2020, month = 3, day = 10\<rparr>
   \<and> days_remaining ''2020/03/10'' \<lparr>year = 2025, month = 3, day = 10\<rparr> = Inr 0
   \<and> days_remaining ''2020/03/10'' \<lparr>year = 2025, month = 3, day = 11\<rparr> = Inr 364
   \<and> (\<exists>nb. days_remaining ''2020/03/10'' \<lparr>year = 2025, month = 3, day = 11\<rparr>
             = Inr (toordinal nb - toordinal \<lparr>year = 2025, month = 3, day = 11\<rparr>)
           \<and> 0 \<le> toordinal nb - toordinal \<lparr>year = 2025, month = 3, day = 11\<rparr>)"
proof -
  let ?b = "\<lparr>year = 2020, month = 3, day = 10\<rparr>"
  let ?t = "\<lparr>year = 2025, month = 3, day = 11\<rparr>"
  have a: "strptime ''2020/03/10'' = Inr ?b" by code_simp
  have b: "\<not> (month ?b = 2 \<and> day ?b = 29)" by simp
  have c: "check_date_fields (year ?t) (month ?t) (day ?t) = Inr ?t" by code_simp
  have d: "year ?t < 9999" by simp
  have e: "days_remaining ''2020/03/10'' \<lparr>year = 2025, month = 3, day = 10\<rparr> = Inr 0"
    by code_simp
  have f: "days_remaining ''2020/03/10'' ?t = Inr 364" by code_simp
  from days_remaining_next_occurrence [OF a b c d] a e f show ?thesis by blast
qed

section \<open>The change handler\<close>

lemma has_key_map_of: "map_of ab k = Some r \<Longrightarrow> has_key ab k"
  by (auto simp: has_key_def dest: map_of_SomeD intro: rev_image_eqI)

text \<open>
  Claim C3, as stated: a validation failure among the arguments of the change handler
  leaves the record either fully updated with no error reported, or unchanged.
  The handler validates and commits the birthday before it looks at the phones: with
  the valid birthday 2020/01/01 and the invalid phone 123 it returns the phone error,
  and the record has the new birthday and the old phones.
\<close>

theorem handle_change_partial_update:
  "handle_change
     [(Some ''Bob'', \<lparr>name = Some ''Bob'', birthday = None, phones = [''11111111111'']\<rparr>)]
     (Some ''Bob'') (Some ''2020/01/01'') [''123'']
   = ([(Some ''Bob'',
        \<lparr>name = Some ''Bob'', birthday = Some ''2020/01/01'', phones = [''11111111111'']\<rparr>)],
      [],
      Some ''[-] Phone numbers must be 11-digit numerical strings.'')"
  by code_simp

text \<open>What the handler does for a name that is a key: the record afterwards, the text
  printed, and the value returned.\<close>

lemma handle_change_found:
  assumes "map_of ab nm = Some r"
  shows "handle_change ab nm bd phs =
     (setitem ab nm
        \<lparr>name = name r,
         birthday = (if truthy bd \<and> valid_birthday (fmt bd) then bd else birthday r),
         phones = (if phs \<noteq> [] \<and> list_all match_phone phs then phs else phones r)\<rparr>,
      missing_name nm
      @ (if truthy bd \<and> \<not> valid_birthday (fmt bd) then println (''[-] '' @ birthday_message)
         else [])
      @ (if phs \<noteq> [] \<and> \<not> list_all match_phone phs then []
         else println (''[+] Contact '' @ [squote] @ fmt nm @ [squote]
                       @ '' changed successfully!'')),
      if phs \<noteq> [] \<and> \<not> list_all match_phone phs then Some (''[-] '' @ phone_message)
      else None)"
proof -
  have r: "\<lparr>name = name r, birthday = birthday r, phones = phones r\<rparr> = r" by simp
  have u: "r\<lparr>birthday := x\<rparr> = \<lparr>name = name r, birthday = x, phones = phones r\<rparr>" for x
    by (rule Record.equality) simp_all
  have w: "r\<lparr>phones := x\<rparr> = \<lparr>name = name r, birthday = birthday r, phones = x\<rparr>" for x
    by (rule Record.equality) simp_all
  have m: "map Field_init phs = phs" by (induction phs) (simp_all add: Field_init_def)
  show ?thesis
  proof (cases bd)
    case None
    then show ?thesis
      using assms by (simp add: handle_change_def Let_def truthy_def r w m)
  next
    case (Some b)
    show ?thesis
    proof (cases "b = []")
      case True
      with Some show ?thesis
        using assms by (simp add: handle_change_def Let_def truthy_def r w m)
    next
      case False
      show ?thesis
      proof (cases "strptime b")
        case (Inl e)
        with Some False show ?thesis
          using assms
          by (simp add: handle_change_def Let_def truthy_def valid_birthday_def fmt_def r w m)
      next
        case (Inr dt)
        with Some False show ?thesis
          using assms
          by (simp add: handle_change_def Let_def truthy_def valid_birthday_def fmt_def
              Field_init_def u m)
      qed
    qed
  qed
qed

text \<open>
  Claim C3, amended: for every existing record and every argument combination, the
  change handler validates each supplied field on its own before committing that field:
  the birthday becomes the supplied one exactly when one is supplied and \<open>strptime\<close>
  accepts it, and is unchanged otherwise; the phone list becomes the supplied list
  exactly when the list is not empty and every phone matches the 11-digit pattern, and
  is unchanged otherwise, in which case (some phone not matching) the phone error is
  returned; the name, the keys and their order, and every other record are unchanged.
\<close>

theorem handle_change_per_field:
  assumes "map_of ab nm = Some r"
  shows "map fst (fst (handle_change ab nm bd phs)) = map fst ab
    \<and> (\<forall>k. k \<noteq> nm \<longrightarrow> map_of (fst (handle_change ab nm bd phs)) k = map_of ab k)
    \<and> map_of (fst (handle_change ab nm bd phs)) nm
      = Some \<lparr>name = name r,
              birthday = (if truthy bd \<and> valid_birthday (fmt bd) then bd else birthday r),
              phones = (if phs \<noteq> [] \<and> list_all match_phone phs then phs else phones r)\<rparr>
    \<and> snd (snd (handle_change ab nm bd phs))
      = (if phs \<noteq> [] \<and> \<not> list_all match_phone phs then Some (''[-] '' @ phone_message)
         else None)"
  unfolding handle_change_found [OF assms]
  using has_key_map_of [OF assms]
  by (simp add: map_of_setitem map_of_setitem_other keys_setitem)

text \<open>The theorem at Bob's record, with a valid birthday and a valid phone supplied.\<close>

theorem handle_change_per_field_witness:
  "map_of [(Some ''Bob'', \<lparr>name = Some ''Bob'', birthday = None, phones = [''11111111111'']\<rparr>)]
      (Some ''Bob'')
     = Some \<lparr>name = Some ''Bob'', birthday = None, phones = [''11111111111'']\<rparr>
   \<and> map_of (fst (handle_change
        [(Some ''Bob'', \<lparr>name = Some ''Bob'', birthday = None, phones = [''11111111111'']\<rparr>)]
        (Some ''Bob'') (Some ''2020/01/01'') [''22222222222''])) (Some ''Bob'')
     = Some \<lparr>name = Some ''Bob'', birthday = Some ''2020/01/01'', phones = [''22222222222'']\<rparr>"
proof -
  let ?r = "\<lparr>name = Some ''Bob'', birthday = None, phones = [''11111111111'']\<rparr>"
  have a: "map_of [(Some ''Bob'', ?r)] (Some ''Bob'') = Some ?r" by simp
  have b: "truthy (Some ''2020/01/01'') \<and> valid_birthday (fmt (Some ''2020/01/01''))"
    by code_simp
  have c: "[''22222222222''] \<noteq> [] \<and> list_all match_phone [''22222222222'']" by code_simp
  from handle_change_per_field [OF a, of "Some ''2020/01/01''" "[''22222222222'']"] a b c
  show ?thesis by simp
qed

section \<open>Rows: writing a record and reading it back\<close>

lemma digit_plain: "is_digit c \<Longrightarrow> plain c"
  by (auto simp: is_digit_def plain_def printable_def squote_def Let_def)

lemma repr_char_plain: "plain c \<Longrightarrow> repr_char squote c = [c]"
  by (auto simp: plain_def repr_char_def printable_def Let_def)

lemma repr_str_plain:
  assumes "list_all plain s"
  shows "repr_str s = squote # s @ [squote]"
proof -
  from assms have "squote \<notin> set s" by (auto simp: list_all_iff plain_def)
  moreover from assms have "concat (map (repr_char squote) s) = s"
    by (induction s) (simp_all add: repr_char_plain)
  ultimately show ?thesis by (simp add: repr_str_def)
qed

lemma eval_literal_plain:
  assumes "list_all plain s"
  shows "eval_literal (squote # s @ squote # rest) = Some (s, rest)"
proof -
  let ?P = "\<lambda>c. c \<noteq> squote \<and> c \<noteq> CHR 0x5C \<and> printable c"
  from assms have all: "\<forall>c \<in> set s. ?P c" by (auto simp: list_all_iff plain_def)
  then have d: "dropWhile ?P (s @ squote # rest) = squote # rest"
    by (simp add: dropWhile_append2)
  from all have t: "takeWhile ?P (s @ squote # rest) = s"
    by (simp add: takeWhile_append2)
  show ?thesis by (simp add: d t)
qed

lemma eval_items_plain:
  assumes "xs \<noteq> []" and "list_all (list_all plain) xs"
  shows "eval_items (join '', '' (map repr_str xs) @ '']'') = Some xs"
  using assms
proof (induction xs rule: list_nonempty_induct)
  case (single x)
  then have x: "list_all plain x" by simp
  have l: "eval_literal (join '', '' (map repr_str [x]) @ '']'') = Some (x, '']'')"
    using eval_literal_plain [OF x, of "'']''"]
    by (simp add: repr_str_plain [OF x] del: eval_literal.simps)
  show ?case
    by (subst eval_items.simps, simp only: l, simp)
next
  case (cons x xs)
  then have x: "list_all plain x" and xs: "list_all (list_all plain) xs" by simp_all
  from cons.hyps obtain y ys where ys: "xs = y # ys" by (cases xs) auto
  have IH: "eval_items (join '', '' (map repr_str xs) @ '']'') = Some xs"
    using cons.IH xs by simp
  have j: "join '', '' (map repr_str (x # xs)) @ '']''
           = squote # x @ squote # ('', '' @ join '', '' (map repr_str xs) @ '']'')"
    by (simp add: ys repr_str_plain [OF x])
  have l: "eval_literal (squote # x @ squote # ('', '' @ join '', '' (map repr_str xs) @ '']''))
           = Some (x, '', '' @ join '', '' (map repr_str xs) @ '']'')"
    by (rule eval_literal_plain [OF x])
  show ?case
    unfolding j
    by (subst eval_items.simps, simp only: l, simp add: IH)
qed

lemma eval_phones_str_list:
  assumes "list_all (list_all plain) xs"
  shows "eval_phones (str_list xs) = Inr xs"
proof (cases "xs = []")
  case True
  then show ?thesis by (simp add: eval_phones_def str_list_def)
next
  case False
  then obtain y ys where ys: "xs = y # ys" by (cases xs) auto
  with assms have "list_all plain y" by simp
  then have r: "repr_str y = squote # y @ [squote]" by (rule repr_str_plain)
  have ne: "str_list xs \<noteq> ''[]''"
    by (cases ys) (simp_all add: str_list_def ys r squote_def)
  from eval_items_plain [OF False assms] ne show ?thesis
    by (simp add: eval_phones_def str_list_def)
qed

lemma load_row_empty_birthday: "load_row (nm, [], ps) = Inr r' \<Longrightarrow> birthday r' = None"
  by (auto simp: load_row_def Let_def Record_init_eq birthday_foldl_add_phone truthy_def
      split: sum.splits)

text \<open>
  Claim C8: for every record with a name, an optional (non-empty) birthday and any list
  of valid phones (11 digits each), writing it to a row and reading the row back gives
  an equal record: the same name, the same birthday, the same phones in the same order;
  a record without birthday is written with an empty birthday field, and a row with an
  empty birthday field is read as a record without birthday.
\<close>

theorem row_round_trip:
  assumes "name r = Some n" and "birthday r \<noteq> Some []"
    and "\<forall>p \<in> set (phones r). length p = 11 \<and> list_all is_digit p"
  shows "load_row (to_row r) = Inr r
    \<and> (birthday r = None \<longrightarrow> fst (snd (to_row r)) = [])
    \<and> (\<forall>nm ps r'. load_row (nm, [], ps) = Inr r' \<longrightarrow> birthday r' = None)"
proof (intro conjI allI impI)
  from assms(3) have "list_all (list_all plain) (phones r)"
    by (auto simp: list_all_iff digit_plain)
  then have e: "eval_phones (str_list (phones r)) = Inr (phones r)"
    by (rule eval_phones_str_list)
  show "load_row (to_row r) = Inr r"
  proof (cases "birthday r")
    case None
    have "foldl add_phone \<lparr>name = Some n, birthday = None, phones = []\<rparr> (phones r) = r"
      using assms(1) None
      by (intro Record.equality)
         (simp_all add: phones_foldl_add_phone name_foldl_add_phone birthday_foldl_add_phone)
    with None show ?thesis
      using assms(1) e by (simp add: load_row_def to_row_def Let_def Record_init_eq truthy_def)
  next
    case (Some b)
    with assms(2) have b: "b \<noteq> []" by simp
    have "foldl add_phone \<lparr>name = Some n, birthday = Some b, phones = []\<rparr> (phones r) = r"
      using assms(1) Some
      by (intro Record.equality)
         (simp_all add: phones_foldl_add_phone name_foldl_add_phone birthday_foldl_add_phone)
    with Some b show ?thesis
      using assms(1) e
      by (simp add: load_row_def to_row_def Let_def Record_init_eq truthy_def Field_init_def)
  qed
next
  assume "birthday r = None"
  then show "fst (snd (to_row r)) = []" by (simp add: to_row_def)
next
  fix nm ps r'
  assume "load_row (nm, [], ps) = Inr r'"
  then show "birthday r' = None" by (rule load_row_empty_birthday)
qed

text \<open>The theorem at a record with a birthday and two phones, with the row it is
  written to.\<close>

theorem row_round_trip_witness:
  "to_row \<lparr>name = Some ''Bob Smith'', birthday = Some ''2020/03/10'',
           phones = [''55512340001'', ''12345678901'']\<rparr>
     = (''Bob Smith'', ''2020/03/10'',
        ''['' @ [squote] @ ''55512340001'' @ [squote] @ '', '' @ [squote] @ ''12345678901''
        @ [squote] @ '']'')
   \<and> load_row (to_row \<lparr>name = Some ''Bob Smith'', birthday = Some ''2020/03/10'',
           phones = [''55512340001'', ''12345678901'']\<rparr>)
     = Inr \<lparr>name = Some ''Bob Smith'', birthday = Some ''2020/03/10'',
           phones = [''55512340001'', ''12345678901'']\<rparr>"
proof -
  let ?r = "\<lparr>name = Some ''Bob Smith'', birthday = Some ''2020/03/10'',
           phones = [''55512340001'', ''12345678901'']\<rparr>"
  have a: "name ?r = Some ''Bob Smith''" by simp
  have b: "birthday ?r \<noteq> Some []" by simp
  have c: "\<forall>p \<in> set (phones ?r). length p = 11 \<and> list_all is_digit p"
    by (simp add: is_digit_def)
  have d: "to_row ?r = (''Bob Smith'', ''2020/03/10'',
        ''['' @ [squote] @ ''55512340001'' @ [squote] @ '', '' @ [squote] @ ''12345678901''
        @ [squote] @ '']'')"
    by code_simp
  from row_round_trip [OF a b c] d show ?thesis by blast
qed

section \<open>Birthday validation\<close>

subsection \<open>Every match of the expression has the shape of a date text\<close>

lemma char_eq_iff: "c = d \<longleftrightarrow> (of_char c :: nat) = of_char d"
  by (simp add: of_char_eq_iff)

lemma is_digit_not_space: "is_digit c \<Longrightarrow> \<not> is_space c"
  unfolding is_digit_def is_space_def Let_def by arith

lemma strip_digits1: "is_digit a \<Longrightarrow> strip [a] = [a]"
  by (simp add: strip_def strip_chars_def is_digit_not_space)

lemma strip_digits2: "is_digit a \<Longrightarrow> is_digit b \<Longrightarrow> strip [a, b] = [a, b]"
  by (simp add: strip_def strip_chars_def is_digit_not_space)

lemma is_space_space: "is_space CHR '' ''"
  by (simp add: is_space_def)

lemma strip_space_digit: "is_digit c \<Longrightarrow> strip [CHR '' '', c] = [c]"
  by (simp add: strip_def strip_chars_def is_digit_not_space is_space_space)

lemma py_int1: "is_digit a \<Longrightarrow> py_int [a] = digit_val a"
  by (simp add: py_int_def strip_digits1)

lemma py_int2: "is_digit a \<Longrightarrow> is_digit b \<Longrightarrow> py_int [a, b] = 10 * digit_val a + digit_val b"
  by (simp add: py_int_def strip_digits2)

lemma py_int_space: "is_digit c \<Longrightarrow> py_int [CHR '' '', c] = digit_val c"
  by (simp add: py_int_def strip_space_digit)

lemma two_mem:
  "(t, r) \<in> set (two P Q s) \<Longrightarrow> \<exists>a b. t = [a, b] \<and> s = a # b # r \<and> P a \<and> Q b"
  by (auto simp: two_def split: list.splits if_splits)

lemma one_mem: "(t, r) \<in> set (one P s) \<Longrightarrow> \<exists>a. t = [a] \<and> s = a # r \<and> P a"
  by (auto simp: one_def split: list.splits if_splits)

lemma lit_mem: "r \<in> set (lit c s) \<Longrightarrow> s = c # r"
  by (auto simp: lit_def split: list.splits if_splits)

lemma re_Y_mem:
  "(t, r) \<in> set (re_Y s) \<Longrightarrow> s = t @ r \<and> length t = 4 \<and> list_all is_digit t"
  by (auto simp: re_Y_def split: list.splits if_splits)

lemma re_m_mem:
  assumes "(t, r) \<in> set (re_m s)"
  shows "s = t @ r \<and> list_all is_digit t \<and> (length t = 1 \<or> length t = 2)"
proof -
  from assms consider
      "(t, r) \<in> set (two (\<lambda>c. c = CHR ''1'') (in_range CHR ''0'' CHR ''2'') s)"
    | "(t, r) \<in> set (two (\<lambda>c. c = CHR ''0'') (in_range CHR ''1'' CHR ''9'') s)"
    | "(t, r) \<in> set (one (in_range CHR ''1'' CHR ''9'') s)"
    by (auto simp: re_m_def)
  then show ?thesis
  proof cases
    case 1
    from two_mem [OF this] show ?thesis by (auto simp: is_digit_def in_range_def)
  next
    case 2
    from two_mem [OF this] show ?thesis by (auto simp: is_digit_def in_range_def)
  next
    case 3
    from one_mem [OF this] show ?thesis by (auto simp: is_digit_def in_range_def)
  qed
qed

lemma re_d_mem:
  assumes "(t, r) \<in> set (re_d s)"
  shows "s = t @ r
    \<and> ((list_all is_digit t \<and> (length t = 1 \<or> length t = 2))
       \<or> (\<exists>c. t = [CHR '' '', c] \<and> is_digit c))"
proof -
  from assms consider
      "(t, r) \<in> set (two (\<lambda>c. c = CHR ''3'') (in_range CHR ''0'' CHR ''1'') s)"
    | "(t, r) \<in> set (two (in_range CHR ''1'' CHR ''2'') is_digit s)"
    | "(t, r) \<in> set (two (\<lambda>c. c = CHR ''0'') (in_range CHR ''1'' CHR ''9'') s)"
    | "(t, r) \<in> set (one (in_range CHR ''1'' CHR ''9'') s)"
    | "(t, r) \<in> set (two (\<lambda>c. c = CHR '' '') (in_range CHR ''1'' CHR ''9'') s)"
    by (auto simp: re_d_def)
  then show ?thesis
  proof cases
    case 1
    from two_mem [OF this] show ?thesis by (auto simp: is_digit_def in_range_def)
  next
    case 2
    from two_mem [OF this] show ?thesis by (auto simp: is_digit_def in_range_def)
  next
    case 3
    from two_mem [OF this] show ?thesis by (auto simp: is_digit_def in_range_def)
  next
    case 4
    from one_mem [OF this] show ?thesis by (auto simp: is_digit_def in_range_def)
  next
    case 5
    from two_mem [OF this] show ?thesis by (auto simp: is_digit_def in_range_def)
  qed
qed

lemma re_Ymd_mem:
  assumes "(y, m, d, r) \<in> set (re_Ymd s)"
  shows "s = y @ ''/'' @ m @ ''/'' @ d @ r
    \<and> length y = 4 \<and> list_all is_digit y
    \<and> list_all is_digit m \<and> (length m = 1 \<or> length m = 2)
    \<and> ((list_all is_digit d \<and> (length d = 1 \<or> length d = 2))
       \<or> (\<exists>c. d = [CHR '' '', c] \<and> is_digit c))"
proof -
  from assms obtain r1 r2 r3 r4 where
    "(y, r1) \<in> set (re_Y s)" "r2 \<in> set (lit CHR ''/'' r1)" "(m, r3) \<in> set (re_m r2)"
    "r4 \<in> set (lit CHR ''/'' r3)" "(d, r) \<in> set (re_d r4)"
    by (auto simp: re_Ymd_def)
  from re_Y_mem [OF this(1)] lit_mem [OF this(2)] re_m_mem [OF this(3)] lit_mem [OF this(4)]
    re_d_mem [OF this(5)]
  show ?thesis by simp
qed

subsection \<open>The first match on a date text\<close>

lemma digit_val_bounds: "is_digit c \<Longrightarrow> 0 \<le> digit_val c \<and> digit_val c \<le> 9"
  by (auto simp: is_digit_def digit_val_def)

lemma digit_val_eq: "digit_val c = int n \<Longrightarrow> of_char c = n + 48" if "is_digit c"
  using that by (auto simp: is_digit_def digit_val_def)

lemma digit_not_slash: "is_digit c \<Longrightarrow> c \<noteq> CHR ''/''"
  by (auto simp: is_digit_def)

lemma re_d_head:
  assumes "(list_all is_digit ds \<and> (length ds = 1 \<or> length ds = 2))
       \<or> (\<exists>c. ds = [CHR '' '', c] \<and> is_digit c)"
    and "1 \<le> py_int ds" and "py_int ds \<le> 31"
  shows "\<exists>rest. re_d ds = (ds, []) # rest"
proof -
  from assms(1) consider
      (one) a where "ds = [a]" "is_digit a"
    | (two) a b where "ds = [a, b]" "is_digit a" "is_digit b"
    | (space) c where "ds = [CHR '' '', c]" "is_digit c"
    by (cases ds rule: list.exhaust; cases "tl ds" rule: list.exhaust) auto
  then show ?thesis
  proof cases
    case one
    with assms(2) have "1 \<le> digit_val a" by (simp add: py_int1)
    then have "in_range CHR ''1'' CHR ''9'' a"
      using one(2) by (auto simp: in_range_def is_digit_def digit_val_def)
    then show ?thesis by (simp add: one(1) re_d_def two_def one_def)
  next
    case two
    from assms(2,3) two have b: "1 \<le> 10 * digit_val a + digit_val b"
      "10 * digit_val a + digit_val b \<le> 31"
      by (simp_all add: py_int2)
    from digit_val_bounds [OF two(2)] digit_val_bounds [OF two(3)] b
    consider "digit_val a = 0" "1 \<le> digit_val b"
      | "digit_val a = 1 \<or> digit_val a = 2"
      | "digit_val a = 3" "digit_val b \<le> 1"
      by arith
    then show ?thesis
    proof cases
      case 1
      then have "a = CHR ''0''" "in_range CHR ''1'' CHR ''9'' b"
        using two(2,3) by (auto simp: char_eq_iff in_range_def is_digit_def digit_val_def)
      then show ?thesis by (simp add: two(1) re_d_def two_def one_def in_range_def)
    next
      case 2
      then have "in_range CHR ''1'' CHR ''2'' a" "a \<noteq> CHR ''3''"
        using two(2) by (auto simp: char_eq_iff in_range_def is_digit_def digit_val_def)
      then show ?thesis by (simp add: two(1,3) re_d_def two_def one_def)
    next
      case 3
      then have "a = CHR ''3''" "in_range CHR ''0'' CHR ''1'' b"
        using two(2,3) by (auto simp: char_eq_iff in_range_def is_digit_def digit_val_def)
      then show ?thesis by (simp add: two(1) re_d_def two_def one_def)
    qed
  next
    case space
    with assms(2) have "1 \<le> digit_val c" by (simp add: py_int_space)
    then have "in_range CHR ''1'' CHR ''9'' c"
      using space(2) by (auto simp: in_range_def is_digit_def digit_val_def)
    then show ?thesis by (simp add: space(1) re_d_def two_def one_def in_range_def)
  qed
qed

lemma re_m_head:
  assumes "list_all is_digit ms" and "length ms = 1 \<or> length ms = 2"
    and "1 \<le> py_int ms" and "py_int ms \<le> 12"
  shows "concat (map (\<lambda>(m, r3). concat (map (G m) (lit CHR ''/'' r3)))
           (re_m (ms @ CHR ''/'' # ds))) = G ms ds"
proof -
  from assms(1,2) consider
      (one) a where "ms = [a]" "is_digit a"
    | (two) a b where "ms = [a, b]" "is_digit a" "is_digit b"
    by (cases ms rule: list.exhaust; cases "tl ms" rule: list.exhaust) auto
  then show ?thesis
  proof cases
    case one
    with assms(3) have "1 \<le> digit_val a" by (simp add: py_int1)
    then have "in_range CHR ''1'' CHR ''9'' a"
      using one(2) by (auto simp: in_range_def is_digit_def digit_val_def)
    then show ?thesis by (simp add: one(1) re_m_def two_def one_def lit_def in_range_def)
  next
    case two
    from assms(3,4) two have b: "1 \<le> 10 * digit_val a + digit_val b"
      "10 * digit_val a + digit_val b \<le> 12"
      by (simp_all add: py_int2)
    from digit_val_bounds [OF two(2)] digit_val_bounds [OF two(3)] b
    consider "digit_val a = 0" "1 \<le> digit_val b" | "digit_val a = 1" "digit_val b \<le> 2"
      by arith
    then show ?thesis
    proof cases
      case 1
      then have "a = CHR ''0''" "in_range CHR ''1'' CHR ''9'' b"
        using two(2,3) by (auto simp: char_eq_iff in_range_def is_digit_def digit_val_def)
      then show ?thesis by (simp add: two(1) re_m_def two_def one_def lit_def in_range_def)
    next
      case 2
      then have "a = CHR ''1''" "in_range CHR ''0'' CHR ''2'' b"
        using two(2,3) by (auto simp: char_eq_iff in_range_def is_digit_def digit_val_def)
      then show ?thesis
        using digit_not_slash [OF two(3)]
        by (simp add: two(1) re_m_def two_def one_def lit_def in_range_def)
    qed
  qed
qed

lemma py_int4_le:
  assumes "length ys = 4" and "list_all is_digit ys"
  shows "py_int ys \<le> 9999"
proof -
  from assms(1) obtain a b c d where ys: "ys = [a, b, c, d]"
    by (cases ys rule: list.exhaust; cases "tl ys" rule: list.exhaust;
        cases "tl (tl ys)" rule: list.exhaust; cases "tl (tl (tl ys))" rule: list.exhaust) auto
  with assms(2) have dg: "is_digit a" "is_digit b" "is_digit c" "is_digit d" by simp_all
  then have "strip ys = ys"
    by (simp add: ys strip_def strip_chars_def is_digit_not_space)
  then have "py_int ys = 1000 * digit_val a + 100 * digit_val b + 10 * digit_val c + digit_val d"
    by (simp add: py_int_def ys)
  with digit_val_bounds [OF dg(1)] digit_val_bounds [OF dg(2)] digit_val_bounds [OF dg(3)]
    digit_val_bounds [OF dg(4)]
  show ?thesis by simp
qed

lemma re_Ymd_head:
  assumes "length ys = 4" and "list_all is_digit ys"
    and "list_all is_digit ms" and "length ms = 1 \<or> length ms = 2"
    and "1 \<le> py_int ms" and "py_int ms \<le> 12"
    and "(list_all is_digit ds \<and> (length ds = 1 \<or> length ds = 2))
       \<or> (\<exists>c. ds = [CHR '' '', c] \<and> is_digit c)"
    and "1 \<le> py_int ds" and "py_int ds \<le> 31"
  shows "\<exists>rest. re_Ymd (ys @ ''/'' @ ms @ ''/'' @ ds) = (ys, ms, ds, []) # rest"
proof -
  from assms(1) obtain a b c d where ys: "ys = [a, b, c, d]"
    by (cases ys rule: list.exhaust; cases "tl ys" rule: list.exhaust;
        cases "tl (tl ys)" rule: list.exhaust; cases "tl (tl (tl ys))" rule: list.exhaust) auto
  with assms(2) have dg: "is_digit a" "is_digit b" "is_digit c" "is_digit d" by simp_all
  define G :: "string \<Rightarrow> string \<Rightarrow> (string \<times> string \<times> string \<times> string) list"
    where "G = (\<lambda>m r4. map (\<lambda>(d, r5). (ys, m, d, r5)) (re_d r4))"
  have "re_Ymd (ys @ ''/'' @ ms @ ''/'' @ ds)
        = concat (map (\<lambda>(m, r3). concat (map (G m) (lit CHR ''/'' r3)))
            (re_m (ms @ CHR ''/'' # ds)))"
    using dg by (simp add: re_Ymd_def re_Y_def ys lit_def G_def)
  also have "\<dots> = G ms ds"
    by (rule re_m_head [OF assms(3,4,5,6)])
  finally have e: "re_Ymd (ys @ ''/'' @ ms @ ''/'' @ ds)
      = map (\<lambda>(d, r5). (ys, ms, d, r5)) (re_d ds)"
    by (simp add: G_def)
  from re_d_head [OF assms(7,8,9)] obtain rest where "re_d ds = (ds, []) # rest" ..
  with e show ?thesis by simp
qed

text \<open>The texts that \<open>strptime\<close> accepts, among the strings of the model (code points
  below 256): four digits, a slash, a month of one or two digits, a slash, a day of one
  or two digits or of a space and a digit, making a date that exists.\<close>

lemma valid_birthday_iff:
  "valid_birthday s \<longleftrightarrow>
     (\<exists>ys ms ds. s = ys @ ''/'' @ ms @ ''/'' @ ds
        \<and> length ys = 4 \<and> list_all is_digit ys
        \<and> list_all is_digit ms \<and> (length ms = 1 \<or> length ms = 2)
        \<and> ((list_all is_digit ds \<and> (length ds = 1 \<or> length ds = 2))
           \<or> (\<exists>c. ds = [CHR '' '', c] \<and> is_digit c))
        \<and> 1 \<le> py_int ys
        \<and> 1 \<le> py_int ms \<and> py_int ms \<le> 12
        \<and> 1 \<le> py_int ds \<and> py_int ds \<le> days_in_month (py_int ys) (py_int ms))"
  (is "_ \<longleftrightarrow> ?R")
proof
  assume "valid_birthday s"
  then obtain y m d r rest dt where h: "re_Ymd s = (y, m, d, r) # rest" "r = []"
    "check_date_fields (py_int y) (py_int m) (py_int d) = Inr dt"
    by (auto simp: valid_birthday_def strptime_def split: list.splits if_splits sum.splits)
  from h(1) have "(y, m, d, r) \<in> set (re_Ymd s)" by simp
  from re_Ymd_mem [OF this] h(2) h(3) show ?R
    by (auto simp: check_date_fields_Inr)
next
  assume ?R
  then obtain ys ms ds where s: "s = ys @ ''/'' @ ms @ ''/'' @ ds"
    and ys: "length ys = 4" "list_all is_digit ys"
    and ms: "list_all is_digit ms" "length ms = 1 \<or> length ms = 2"
    and ds: "(list_all is_digit ds \<and> (length ds = 1 \<or> length ds = 2))
           \<or> (\<exists>c. ds = [CHR '' '', c] \<and> is_digit c)"
    and b: "1 \<le> py_int ys" "1 \<le> py_int ms" "py_int ms \<le> 12" "1 \<le> py_int ds"
      "py_int ds \<le> days_in_month (py_int ys) (py_int ms)"
    by blast
  from days_in_month_bounds [OF b(2,3), of "py_int ys"] b(5) have d31: "py_int ds \<le> 31"
    by simp
  from re_Ymd_head [OF ys ms b(2,3) ds b(4) d31] obtain rest
    where "re_Ymd s = (ys, ms, ds, []) # rest" unfolding s ..
  moreover have "check_date_fields (py_int ys) (py_int ms) (py_int ds)
      = Inr \<lparr>year = py_int ys, month = py_int ms, day = py_int ds\<rparr>"
    using b py_int4_le [OF ys] by (simp add: check_date_fields_def)
  ultimately show "valid_birthday s"
    by (simp add: valid_birthday_def strptime_def)
qed

subsection \<open>The setter\<close>

lemma Birthday_set_value_eq:
  "Birthday_set_value v s
     = (if valid_birthday s then (None, s) else (Some (ValueError birthday_message), v))"
  by (simp add: Birthday_set_value_def valid_birthday_def split: sum.splits)

text \<open>
  Claim C4: birthday validation succeeds exactly on the strings of four digits, a
  slash, two digits, a slash and two digits that are real calendar dates, and fails on
  every other string.
  The setter's message asks for the format YYYY/MM/DD and the tokenizer takes a
  birthday to be four, two and two digits, but the setter validates with \<open>strptime\<close>,
  which also takes a month and a day written with one digit: it accepts and stores the
  8 characters 2024/3/5, which the pattern of four, two and two digits does not match.
\<close>

theorem Birthday_set_value_unpadded_month:
  "Birthday_set_value ''2000/01/01'' ''2024/3/5'' = (None, ''2024/3/5'')
   \<and> length ''2024/3/5'' = 8 \<and> \<not> match_birthday ''2024/3/5''"
  by code_simp

text \<open>A day written as a space and a digit is accepted too.\<close>

lemma Birthday_set_value_space_day:
  "Birthday_set_value ''2000/01/01'' ''2024/03/ 5'' = (None, ''2024/03/ 5'')"
  by code_simp

text \<open>A date that does not exist is refused, and the value of the field stays.\<close>

lemma Birthday_set_value_Feb_30:
  "Birthday_set_value ''2000/01/01'' ''2024/02/30''
     = (Some (ValueError birthday_message), ''2000/01/01'')"
  by code_simp

end
